theory Spec2Isabelle
  imports Complex_Main "HOL-Library.AList" "HOL-Library.Sublist"
begin

section \<open>JSON values\<close>

text \<open>
  What \<^verbatim>\<open>encoding/json\<close> decodes into an \<^verbatim>\<open>interface{}\<close>: nil, bool, float64, string,
  \<^verbatim>\<open>[]interface{}\<close> and \<^verbatim>\<open>map[string]interface{}\<close>. A Go map is kept as an association
  list that is only read with \<open>map_of\<close> and written with \<open>AList.update\<close> and
  \<open>AList.delete\<close>, so an entry is found, replaced and removed by its key alone.
\<close>

datatype json =
    JNull
  | JBool bool
  | JNumber real
  | JString string
  | JArray "json list"
  | JObject "(string \<times> json) list"

type_synonym obj = "(string \<times> json) list"

text \<open>
  The root of a document has the Go type \<^verbatim>\<open>map[string]interface{}\<close>, whose zero value is the
  nil map (what \<^verbatim>\<open>json.Unmarshal\<close> leaves for the text \<^verbatim>\<open>null\<close>). \<open>None\<close> is the nil map.
  Reading a nil map finds no key; assigning to one panics.
\<close>

type_synonym gomap = "obj option"

definition entries :: "gomap \<Rightarrow> obj" where
  "entries data = (case data of None \<Rightarrow> [] | Some m \<Rightarrow> m)"

text \<open>A root map passed where the callee takes an \<^verbatim>\<open>interface{}\<close>.\<close>

definition iface :: "gomap \<Rightarrow> json" where
  "iface data = JObject (entries data)"

text \<open>The type assertion \<^verbatim>\<open>v.(map[string]interface{})\<close>.\<close>

fun as_map :: "json \<Rightarrow> obj option" where
  "as_map (JObject m) = Some m"
| "as_map _ = None"

section \<open>Package pathresolver\<close>

datatype path_error_text =
    RootNotObject
  | NonObjectAt string
  | ParentNotObject string

text \<open>
  The sentinel an error wraps, with the path its message quotes. \<open>PanicNilMap\<close> is not an
  error value: it is the run-time panic of an assignment to an entry of a nil map.
\<close>

datatype path_error =
    ErrInvalidPath
  | ErrKeyNotFound string
  | ErrPathError path_error_text
  | ErrPathConflict string
  | PanicNilMap

definition ValidatePath :: "string \<Rightarrow> path_error option" where
  "ValidatePath keyPath = (if keyPath = [] then Some ErrInvalidPath else None)"

text \<open>\<^verbatim>\<open>strings.Split(s, ".")\<close> and \<^verbatim>\<open>strings.Join(keys, ".")\<close>; a Go string is its bytes.\<close>

fun split_on :: "char \<Rightarrow> string \<Rightarrow> string list" where
  "split_on c [] = [[]]"
| "split_on c (x # xs) =
     (if x = c then [] # split_on c xs
      else (case split_on c xs of
              [] \<Rightarrow> [[x]]
            | w # ws \<Rightarrow> (x # w) # ws))"

fun join_dot :: "string list \<Rightarrow> string" where
  "join_dot [] = []"
| "join_dot [k] = k"
| "join_dot (k # ks) = k @ CHR ''.'' # join_dot ks"

definition SplitPath :: "string \<Rightarrow> string list" where
  "SplitPath keyPath = (if keyPath = [] then [] else split_on CHR ''.'' keyPath)"

text \<open>
  The loop of \<^verbatim>\<open>NavigateToKey\<close>: \<open>i\<close> is the index of the segment \<open>key\<close>, the last
  argument the segments still to walk.
\<close>

fun navigate_loop :: "string \<Rightarrow> string list \<Rightarrow> nat \<Rightarrow> json \<Rightarrow> string list \<Rightarrow> path_error + json" where
  "navigate_loop keyPath keys i current [] = Inr current"
| "navigate_loop keyPath keys i current (key # rest) =
     (case as_map current of
        None \<Rightarrow> Inl (ErrPathError (NonObjectAt (join_dot (take i keys))))
      | Some currentMap \<Rightarrow>
          (case map_of currentMap key of
             None \<Rightarrow> Inl (ErrKeyNotFound keyPath)
           | Some v \<Rightarrow> navigate_loop keyPath keys (i + 1) v rest))"

definition NavigateToKey :: "json \<Rightarrow> string \<Rightarrow> path_error + json" where
  "NavigateToKey data keyPath =
     (case ValidatePath keyPath of
        Some err \<Rightarrow> Inl err
      | None \<Rightarrow>
          (case as_map data of
             None \<Rightarrow> Inl (ErrPathError RootNotObject)
           | Some dataMap \<Rightarrow>
               (case map_of dataMap keyPath of
                  Some v \<Rightarrow> Inr v
                | None \<Rightarrow> navigate_loop keyPath (SplitPath keyPath) 0 data (SplitPath keyPath))))"

definition KeyExists :: "json \<Rightarrow> string \<Rightarrow> bool" where
  "KeyExists data keyPath =
     (case ValidatePath keyPath of
        Some err \<Rightarrow> False
      | None \<Rightarrow>
          (case as_map data of
             None \<Rightarrow> False
           | Some dataMap \<Rightarrow>
               (if map_of dataMap keyPath \<noteq> None then True
                else (case NavigateToKey data keyPath of Inl err \<Rightarrow> False | Inr v \<Rightarrow> True))))"


text \<open>
  Go hands out the nested map itself, a reference into the document, and the caller
  assigns or deletes through it. The model names the map by its place, the keys that lead
  to it from the root, and writes through the place: \<open>modify_at place f m\<close> is \<open>m\<close>
  with \<open>f\<close> applied to the map at \<open>place\<close>. \<open>key_place\<close> is the place of what
  \<^verbatim>\<open>NavigateToKey\<close> returns: the whole string where it is a key of the root, its segments
  otherwise.
\<close>

fun modify_at :: "string list \<Rightarrow> (obj \<Rightarrow> obj) \<Rightarrow> obj \<Rightarrow> obj" where
  "modify_at [] f m = f m"
| "modify_at (k # ks) f m =
     (case map_of m k of
        Some (JObject c) \<Rightarrow> AList.update k (JObject (modify_at ks f c)) m
      | _ \<Rightarrow> m)"

definition key_place :: "obj \<Rightarrow> string \<Rightarrow> string list" where
  "key_place dataMap keyPath =
     (if map_of dataMap keyPath \<noteq> None then [keyPath] else SplitPath keyPath)"

text \<open>The result is the parent's place, the parent map, and the final key.\<close>

definition NavigateToParent :: "json \<Rightarrow> string \<Rightarrow> path_error + (string list \<times> obj \<times> string)" where
  "NavigateToParent data keyPath =
     (case ValidatePath keyPath of
        Some err \<Rightarrow> Inl err
      | None \<Rightarrow>
          (let keys = SplitPath keyPath in
           case as_map data of
             None \<Rightarrow> Inl (ErrPathError RootNotObject)
           | Some dataMap \<Rightarrow>
               if length keys = 1 then Inr ([], dataMap, hd keys)
               else
                 (let parentPath = join_dot (butlast keys) in
                  case NavigateToKey data parentPath of
                    Inl err \<Rightarrow> Inl err
                  | Inr parent \<Rightarrow>
                      (case as_map parent of
                         None \<Rightarrow> Inl (ErrPathError (ParentNotObject parentPath))
                       | Some parentMap \<Rightarrow>
                           Inr (key_place dataMap parentPath, parentMap, last keys)))))"

text \<open>
  The loop of \<^verbatim>\<open>CreateNestedPath\<close> over \<^verbatim>\<open>keys[:len(keys)-1]\<close>. It returns
  \<open>current\<close> with the missing intermediate objects created, and the place (below
  \<open>current\<close>) of the map it ends in. A conflict is met before anything is created: below a map
  the loop has just made, no key exists.
\<close>

fun create_loop :: "string list \<Rightarrow> nat \<Rightarrow> obj \<Rightarrow> string list \<Rightarrow> path_error + (obj \<times> string list)" where
  "create_loop keys i current [] = Inr (current, [])"
| "create_loop keys i current (key # rest) =
     (case map_of current key of
        Some v \<Rightarrow>
          (case as_map v of
             Some valueMap \<Rightarrow>
               (case create_loop keys (i + 1) valueMap rest of
                  Inl err \<Rightarrow> Inl err
                | Inr (valueMap', place) \<Rightarrow>
                    Inr (AList.update key (JObject valueMap') current, key # place))
           | None \<Rightarrow> Inl (ErrPathConflict (join_dot (take (i + 1) keys))))
      | None \<Rightarrow>
          (case create_loop keys (i + 1) [] rest of
             Inl err \<Rightarrow> Inl err
           | Inr (newMap, place) \<Rightarrow>
               Inr (AList.update key (JObject newMap) current, key # place)))"

text \<open>
  The result is the document after the loop and the place of the returned map. On a nil
  root with more than one segment the first iteration assigns to the nil map.
\<close>

definition CreateNestedPath :: "gomap \<Rightarrow> string \<Rightarrow> path_error + (gomap \<times> string list)" where
  "CreateNestedPath data keyPath =
     (case ValidatePath keyPath of
        Some err \<Rightarrow> Inl err
      | None \<Rightarrow>
          (let keys = SplitPath keyPath in
           if length keys = 1 then Inr (data, [])
           else
             (case data of
                None \<Rightarrow> Inl PanicNilMap
              | Some m \<Rightarrow>
                  (case create_loop keys 0 m (butlast keys) of
                     Inl err \<Rightarrow> Inl err
                   | Inr (m', place) \<Rightarrow> Inr (Some m', place)))))"

text \<open>
  \<^verbatim>\<open>parent[finalKey] = value\<close> for the map at \<open>place\<close>. Maps below the root are never nil,
  so the assignment panics exactly on a nil root.
\<close>

definition assign_entry :: "gomap \<Rightarrow> string list \<Rightarrow> string \<Rightarrow> json \<Rightarrow> path_error + gomap" where
  "assign_entry data place finalKey v =
     (case data of
        None \<Rightarrow> Inl PanicNilMap
      | Some m \<Rightarrow> Inr (Some (modify_at place (AList.update finalKey v) m)))"

definition SetValueAtPath :: "gomap \<Rightarrow> string \<Rightarrow> json \<Rightarrow> bool \<Rightarrow> path_error + gomap" where
  "SetValueAtPath data keyPath v createPath =
     (if createPath then
        (case CreateNestedPath data keyPath of
           Inl err \<Rightarrow> Inl err
         | Inr (data', place) \<Rightarrow> assign_entry data' place (last (SplitPath keyPath)) v)
      else
        (case NavigateToParent (iface data) keyPath of
           Inl err \<Rightarrow> Inl err
         | Inr (place, parent, finalKey) \<Rightarrow> assign_entry data place finalKey v))"

text \<open>The result is the removed value and the document without it.\<close>

definition RemoveKeyAtPath :: "gomap \<Rightarrow> string \<Rightarrow> path_error + (json \<times> gomap)" where
  "RemoveKeyAtPath data keyPath =
     (case ValidatePath keyPath of
        Some err \<Rightarrow> Inl err
      | None \<Rightarrow>
          (case map_of (entries data) keyPath of
             Some v \<Rightarrow> Inr (v, map_option (AList.delete keyPath) data)
           | None \<Rightarrow>
               (case NavigateToParent (iface data) keyPath of
                  Inl err \<Rightarrow> Inl err
                | Inr (place, parent, finalKey) \<Rightarrow>
                    (case map_of parent finalKey of
                       None \<Rightarrow> Inl (ErrKeyNotFound keyPath)
                     | Some v \<Rightarrow>
                         Inr (v, map_option (modify_at place (AList.delete finalKey)) data)))))"


text \<open>
  The place of the entry that \<^verbatim>\<open>RemoveKeyAtPath\<close> deletes: the whole string where it is a
  key of the root, else the place of the parent, as \<^verbatim>\<open>NavigateToParent\<close> finds it, followed
  by the last segment.
\<close>

definition removal_place :: "obj \<Rightarrow> string \<Rightarrow> string list" where
  "removal_place m keyPath =
     (if map_of m keyPath \<noteq> None then [keyPath]
      else if length (SplitPath keyPath) = 1 then SplitPath keyPath
      else key_place m (join_dot (butlast (SplitPath keyPath))) @ [last (SplitPath keyPath)])"


section \<open>The file system and encoding/json\<close>

text \<open>
  A file is its bytes and its modification time. \<open>reads\<close> counts the calls of
  \<^verbatim>\<open>os.ReadFile\<close>: it is how a theorem says that a call did or did not read the file.
\<close>

type_synonym bytes = string

record disk_file =
  content :: bytes
  modTime :: nat

record world =
  files :: "string \<Rightarrow> disk_file option"
  reads :: nat

text \<open>
  How the operating system answers during one call: whether \<^verbatim>\<open>os.Stat\<close> fails for a reason
  other than absence, whether \<^verbatim>\<open>os.ReadFile\<close> fails, which step of a save fails if any, the
  name \<^verbatim>\<open>os.CreateTemp\<close> picks, and the time a file written now is stamped with.
\<close>

datatype write_step = CreateTemp | Encode | Close | Rename

record env =
  stat_error :: bool
  read_error :: bool
  write_error :: "write_step option"
  temp_path :: string
  clock :: nat

text \<open>
  \<^verbatim>\<open>encoding/json\<close> is not part of the repository; its three uses are parameters:
  \<^verbatim>\<open>json.Unmarshal\<close> into a \<^verbatim>\<open>map[string]interface{}\<close>, \<^verbatim>\<open>json.Unmarshal\<close> into an
  \<^verbatim>\<open>interface{}\<close> (only its error is used), and the encoder with an indent string.
\<close>

datatype unmarshal_error =
    SyntaxError int string
  | OtherError string

record codec =
  unmarshal_map :: "bytes \<Rightarrow> unmarshal_error + gomap"
  unmarshal_any :: "bytes \<Rightarrow> unmarshal_error option"
  encode_indent :: "gomap \<Rightarrow> string \<Rightarrow> bytes option"

datatype stat_result = StatNotExist | StatError | StatInfo nat nat

definition os_Stat :: "env \<Rightarrow> world \<Rightarrow> string \<Rightarrow> stat_result" where
  "os_Stat e w p =
     (if stat_error e then StatError
      else (case files w p of
              None \<Rightarrow> StatNotExist
            | Some f \<Rightarrow> StatInfo (length (content f)) (modTime f)))"

definition os_ReadFile :: "env \<Rightarrow> world \<Rightarrow> string \<Rightarrow> bytes option \<times> world" where
  "os_ReadFile e w p =
     (if read_error e then None else map_option content (files w p),
      w\<lparr>reads := reads w + 1\<rparr>)"

definition os_Remove :: "world \<Rightarrow> string \<Rightarrow> world" where
  "os_Remove w p = w\<lparr>files := (files w)(p := None)\<rparr>"

definition os_WriteFile :: "env \<Rightarrow> world \<Rightarrow> string \<Rightarrow> bytes \<Rightarrow> world" where
  "os_WriteFile e w p text = w\<lparr>files := (files w)(p \<mapsto> \<lparr>content = text, modTime = clock e\<rparr>)\<rparr>"

definition os_Rename :: "world \<Rightarrow> string \<Rightarrow> string \<Rightarrow> world" where
  "os_Rename w src dst =
     (if src = dst then w
      else (case files w src of
              None \<Rightarrow> w
            | Some f \<Rightarrow> w\<lparr>files := (files w)(dst \<mapsto> f, src := None)\<rparr>))"

section \<open>Package jsonhandler\<close>

datatype handler_error =
    ErrFileNotFound
  | ErrFileReadError
  | ErrInvalidJSON
  | ErrFileWriteError write_step

record JSONHandler =
  filePath :: string
  cachedData :: gomap
  fileMTime :: nat

definition NewJSONHandler :: "string \<Rightarrow> JSONHandler" where
  "NewJSONHandler p = \<lparr>filePath = p, cachedData = None, fileMTime = 0\<rparr>"

definition LoadJSON ::
  "codec \<Rightarrow> env \<Rightarrow> JSONHandler \<Rightarrow> world \<Rightarrow> bool \<Rightarrow> (handler_error + gomap) \<times> JSONHandler \<times> world" where
  "LoadJSON J e h w useCache =
     (case os_Stat e w (filePath h) of
        StatNotExist \<Rightarrow> (Inl ErrFileNotFound, h, w)
      | StatError \<Rightarrow> (Inl ErrFileReadError, h, w)
      | StatInfo fileSize currentMTime \<Rightarrow>
          if useCache \<and> cachedData h \<noteq> None \<and> fileMTime h = currentMTime
          then (Inr (cachedData h), h, w)
          else
            (case os_ReadFile e w (filePath h) of
               (None, w') \<Rightarrow> (Inl ErrFileReadError, h, w')
             | (Some data, w') \<Rightarrow>
                 (case unmarshal_map J data of
                    Inl err \<Rightarrow> (Inl ErrInvalidJSON, h, w')
                  | Inr jsonData \<Rightarrow>
                      (Inr jsonData,
                       if useCache then h\<lparr>cachedData := jsonData, fileMTime := currentMTime\<rparr> else h,
                       w'))))"

definition getIndentString :: "int \<Rightarrow> string" where
  "getIndentString indent = replicate (nat indent) CHR '' ''"

text \<open>
  The error is \<open>None\<close> for Go's nil. The deferred function closes the temporary file and
  removes it on every way out; after the rename there is no file of that name left to remove.
  \<^verbatim>\<open>os.CreateTemp\<close> returns the name of a file that did not exist.
\<close>

definition SaveJSON ::
  "codec \<Rightarrow> env \<Rightarrow> JSONHandler \<Rightarrow> world \<Rightarrow> gomap \<Rightarrow> int \<Rightarrow> handler_error option \<times> JSONHandler \<times> world" where
  "SaveJSON J e h w data indent =
     (if write_error e = Some CreateTemp \<or> files w (temp_path e) \<noteq> None
      then (Some (ErrFileWriteError CreateTemp), h, w)
      else
        (let tempPath = temp_path e;
             w1 = os_WriteFile e w tempPath []
         in case (if write_error e = Some Encode then None
                  else encode_indent J data (getIndentString indent)) of
              None \<Rightarrow> (Some (ErrFileWriteError Encode), h, os_Remove w1 tempPath)
            | Some text \<Rightarrow>
                (let w2 = os_WriteFile e w1 tempPath text in
                 if write_error e = Some Close
                 then (Some (ErrFileWriteError Close), h, os_Remove w2 tempPath)
                 else if write_error e = Some Rename
                 then (Some (ErrFileWriteError Rename), h, os_Remove w2 tempPath)
                 else
                   (let w3 = os_Rename w2 tempPath (filePath h);
                        h1 = h\<lparr>cachedData := data\<rparr>;
                        h2 = (case os_Stat e w3 (filePath h) of
                                StatInfo fileSize mtime \<Rightarrow> h1\<lparr>fileMTime := mtime\<rparr>
                              | _ \<Rightarrow> h1)
                    in (None, h2, os_Remove w3 tempPath)))))"

record ValidationError =
  Message :: string
  Line :: int
  Column :: int

text \<open>\<^verbatim>\<open>ParseTime\<close>, a wall-clock duration, is left out of the metrics.\<close>

record PerformanceMetrics =
  FileSize :: int

record ValidationResult =
  Valid :: bool
  File :: string
  Error :: "ValidationError option"
  ErrorType :: string
  Performance :: "PerformanceMetrics option"

text \<open>
  The loop of \<^verbatim>\<open>getLineColumn\<close>. \<open>line\<close> and \<open>col\<close> are Go ints that grow by one per
  byte at most, from 1: they stay below the length of a byte slice plus two and do not wrap.
\<close>

function getLineColumn_loop :: "bytes \<Rightarrow> int \<Rightarrow> nat \<Rightarrow> int \<Rightarrow> int \<Rightarrow> int \<times> int" where
  "getLineColumn_loop data offset i line col =
     (if int i < offset \<and> i < length data then
        (if data ! i = CHR 0x0A then getLineColumn_loop data offset (i + 1) (line + 1) 1
         else getLineColumn_loop data offset (i + 1) line (col + 1))
      else (line, col))"
  by pat_completeness auto
termination
  by (relation "measure (\<lambda>(data, offset, i, line, col). length data - i)") auto

declare getLineColumn_loop.simps [simp del]

definition getLineColumn :: "bytes \<Rightarrow> int \<Rightarrow> int \<times> int" where
  "getLineColumn data offset = getLineColumn_loop data offset 0 1 1"

text \<open>
  \<^verbatim>\<open>ValidateJSONSyntax\<close> tests the error of \<^verbatim>\<open>os.Stat\<close> only for absence; on any other
  error it goes on to call \<^verbatim>\<open>Size\<close> on a nil \<^verbatim>\<open>FileInfo\<close>, which panics: the result
  \<open>None\<close>.
\<close>

definition ValidateJSONSyntax ::
  "codec \<Rightarrow> env \<Rightarrow> JSONHandler \<Rightarrow> world \<Rightarrow> ValidationResult option \<times> world" where
  "ValidateJSONSyntax J e h w =
     (let result = \<lparr>Valid = False, File = filePath h, Error = None, ErrorType = [],
                     Performance = None\<rparr>
      in case os_Stat e w (filePath h) of
           StatNotExist \<Rightarrow>
             (Some (result\<lparr>Valid := False, ErrorType := ''FILE_NOT_FOUND'',
                Error := Some \<lparr>Message = ''File '' @ filePath h @ '' not found'',
                                Line = 0, Column = 0\<rparr>\<rparr>), w)
         | StatError \<Rightarrow> (None, w)
         | StatInfo fileSize mtime \<Rightarrow>
             if fileSize = 0 then
               (Some (result\<lparr>Valid := False, ErrorType := ''PARSE_ERROR'',
                  Error := Some \<lparr>Message = ''File is empty'', Line = 1, Column = 1\<rparr>\<rparr>), w)
             else
               (case os_ReadFile e w (filePath h) of
                  (None, w') \<Rightarrow>
                    (Some (result\<lparr>Valid := False, ErrorType := ''FILE_READ_ERROR'',
                       Error := Some \<lparr>Message = ''Failed to read file'',
                                       Line = 0, Column = 0\<rparr>\<rparr>), w')
                | (Some data, w') \<Rightarrow>
                    if length data = 0 then
                      (Some (result\<lparr>Valid := False, ErrorType := ''PARSE_ERROR'',
                         Error := Some \<lparr>Message = ''File contains only whitespace'',
                                         Line = 1, Column = 1\<rparr>\<rparr>), w')
                    else
                      (case unmarshal_any J data of
                         Some (SyntaxError offset msg) \<Rightarrow>
                           (Some (result\<lparr>Valid := False, ErrorType := ''PARSE_ERROR'',
                              Error := Some \<lparr>Message = msg,
                                              Line = fst (getLineColumn data offset),
                                              Column = snd (getLineColumn data offset)\<rparr>\<rparr>), w')
                       | Some (OtherError msg) \<Rightarrow>
                           (Some (result\<lparr>Valid := False, ErrorType := ''PARSE_ERROR'',
                              Error := Some \<lparr>Message = msg, Line = 0, Column = 0\<rparr>\<rparr>), w')
                       | None \<Rightarrow>
                           (Some (result\<lparr>Valid := True,
                              Performance := Some \<lparr>FileSize = int fileSize\<rparr>\<rparr>), w'))))"

record FileInfo =
  Exists :: bool
  Path :: string
  SizeBytes :: int
  IsCached :: bool

definition GetFileInfo :: "env \<Rightarrow> JSONHandler \<Rightarrow> world \<Rightarrow> FileInfo" where
  "GetFileInfo e h w =
     (let info = \<lparr>Exists = False, Path = filePath h, SizeBytes = 0,
                   IsCached = (cachedData h \<noteq> None)\<rparr>
      in case os_Stat e w (filePath h) of
           StatInfo fileSize mtime \<Rightarrow> info\<lparr>Exists := True, SizeBytes := int fileSize\<rparr>
         | _ \<Rightarrow> info\<lparr>Exists := False\<rparr>)"


section \<open>Package operations\<close>

text \<open>
  An error of an operation: the sentinel it wraps, or the prefix of its text, with what the
  message quotes (key path and file path, or the wrapped error). \<open>HandlerError\<close> is an
  error of \<^verbatim>\<open>LoadJSON\<close> returned as it is. \<open>Panic\<close> is a run-time panic that leaves the
  operation.
\<close>

datatype op_error =
    HandlerError handler_error
  | KEY_NOT_FOUND string string
  | KEY_EXISTS string string
  | INVALID_PATH path_error
  | PATH_ERROR path_error
  | PATH_CONFLICT path_error
  | ADD_KEY_ERROR "path_error + handler_error"
  | UPDATE_KEY_ERROR "path_error + handler_error"
  | REMOVE_KEY_ERROR "path_error + handler_error"
  | RENAME_KEY_ERROR "path_error + handler_error"
  | SAME_KEY
  | Panic

definition GetKey :: "codec \<Rightarrow> env \<Rightarrow> world \<Rightarrow> string \<Rightarrow> string \<Rightarrow> (op_error + json) \<times> world" where
  "GetKey J e w file keyPath =
     (case LoadJSON J e (NewJSONHandler file) w True of
        (Inl err, handler, w') \<Rightarrow> (Inl (HandlerError err), w')
      | (Inr data, handler, w') \<Rightarrow>
          (case NavigateToKey (iface data) keyPath of
             Inl err \<Rightarrow>
               (case err of
                  ErrKeyNotFound p \<Rightarrow> (Inl (KEY_NOT_FOUND keyPath file), w')
                | ErrInvalidPath \<Rightarrow> (Inl (INVALID_PATH err), w')
                | _ \<Rightarrow> (Inl (PATH_ERROR err), w'))
           | Inr v \<Rightarrow> (Inr v, w')))"

definition AddKey ::
  "codec \<Rightarrow> env \<Rightarrow> world \<Rightarrow> string \<Rightarrow> string \<Rightarrow> json \<Rightarrow> op_error option \<times> world" where
  "AddKey J e w file keyPath v =
     (case LoadJSON J e (NewJSONHandler file) w True of
        (Inl err, handler, w') \<Rightarrow> (Some (HandlerError err), w')
      | (Inr data, handler, w') \<Rightarrow>
          if KeyExists (iface data) keyPath then (Some (KEY_EXISTS keyPath file), w')
          else
            (case SetValueAtPath data keyPath v True of
               Inl err \<Rightarrow>
                 (case err of
                    PanicNilMap \<Rightarrow> (Some Panic, w')
                  | ErrPathConflict p \<Rightarrow> (Some (PATH_CONFLICT err), w')
                  | _ \<Rightarrow> (Some (ADD_KEY_ERROR (Inl err)), w'))
             | Inr data' \<Rightarrow>
                 (case SaveJSON J e handler w' data' 2 of
                    (Some err, handler', w'') \<Rightarrow> (Some (ADD_KEY_ERROR (Inr err)), w'')
                  | (None, handler', w'') \<Rightarrow> (None, w''))))"

definition UpdateKey ::
  "codec \<Rightarrow> env \<Rightarrow> world \<Rightarrow> string \<Rightarrow> string \<Rightarrow> json \<Rightarrow> op_error option \<times> world" where
  "UpdateKey J e w file keyPath v =
     (case LoadJSON J e (NewJSONHandler file) w True of
        (Inl err, handler, w') \<Rightarrow> (Some (HandlerError err), w')
      | (Inr data, handler, w') \<Rightarrow>
          (case ValidatePath keyPath of
             Some err \<Rightarrow> (Some (INVALID_PATH err), w')
           | None \<Rightarrow>
               if \<not> KeyExists (iface data) keyPath then (Some (KEY_NOT_FOUND keyPath file), w')
               else
                 (case SetValueAtPath data keyPath v False of
                    Inl err \<Rightarrow>
                      (case err of
                         PanicNilMap \<Rightarrow> (Some Panic, w')
                       | ErrKeyNotFound p \<Rightarrow> (Some (KEY_NOT_FOUND keyPath file), w')
                       | _ \<Rightarrow> (Some (UPDATE_KEY_ERROR (Inl err)), w'))
                  | Inr data' \<Rightarrow>
                      (case SaveJSON J e handler w' data' 2 of
                         (Some err, handler', w'') \<Rightarrow> (Some (UPDATE_KEY_ERROR (Inr err)), w'')
                       | (None, handler', w'') \<Rightarrow> (None, w'')))))"

text \<open>
  \<^verbatim>\<open>RenameKey\<close> stores at the new path the value it read at the old path, then removes the
  old path, in the one document it loaded, and saves once.

  For an object, what \<^verbatim>\<open>NavigateToKey\<close> returns and \<^verbatim>\<open>SetValueAtPath\<close> stores is the map
  itself, not a copy: afterwards two entries of the document hold one map. The tree of the
  model shows the map under both entries, which is what the encoder writes for a shared map,
  unless the map was stored below itself. That happens when the loop of
  \<^verbatim>\<open>CreateNestedPath\<close>, which follows the segments of the new path but the last from the
  root, goes through the map: when the place of the map (\<open>key_place\<close>) is a prefix of
  those segments. The parent that the loop returns is then the map or lies inside it, and
  after the assignment the map contains itself (\<open>stored_below_itself\<close>).

  \<^verbatim>\<open>RemoveKeyAtPath\<close> then deletes one entry. Where that is the entry which held the map
  (\<open>removal_place\<close> is the place of the map), the map is cut off the document and the cycle
  with it, and the tree is the document that is saved. Where it is another entry (the parent
  path of the old path is, as a whole string, a key of the root, and the entry deleted is
  one of that map), the document still holds the map that contains itself, and
  \<^verbatim>\<open>encoder.Encode\<close> in \<^verbatim>\<open>SaveJSON\<close> returns an error for it
  (a \<^verbatim>\<open>json.UnsupportedValueError\<close>) before it writes anything: \<open>on_cycle J\<close> is the
  encoder of \<open>J\<close> given that document.
\<close>

definition stored_below_itself :: "gomap \<Rightarrow> string \<Rightarrow> string \<Rightarrow> bool" where
  "stored_below_itself data oldPath newPath =
     (case NavigateToKey (iface data) oldPath of
        Inl err \<Rightarrow> False
      | Inr v \<Rightarrow>
          (case as_map v of
             None \<Rightarrow> False
           | Some valueMap \<Rightarrow>
               prefix (key_place (entries data) oldPath) (butlast (SplitPath newPath))))"

definition on_cycle :: "codec \<Rightarrow> codec" where
  "on_cycle J = J\<lparr>encode_indent := (\<lambda>data indent. None)\<rparr>"

definition RenameKey ::
  "codec \<Rightarrow> env \<Rightarrow> world \<Rightarrow> string \<Rightarrow> string \<Rightarrow> string \<Rightarrow> op_error option \<times> world" where
  "RenameKey J e w file oldPath newPath =
     (if oldPath = newPath then (Some SAME_KEY, w)
      else
        (case ValidatePath oldPath of
           Some err \<Rightarrow> (Some (INVALID_PATH err), w)
         | None \<Rightarrow>
             (case ValidatePath newPath of
                Some err \<Rightarrow> (Some (INVALID_PATH err), w)
              | None \<Rightarrow>
                  (case LoadJSON J e (NewJSONHandler file) w True of
                     (Inl err, handler, w') \<Rightarrow> (Some (HandlerError err), w')
                   | (Inr data, handler, w') \<Rightarrow>
                       if \<not> KeyExists (iface data) oldPath
                       then (Some (KEY_NOT_FOUND oldPath file), w')
                       else if KeyExists (iface data) newPath
                       then (Some (KEY_EXISTS newPath file), w')
                       else
                         (case NavigateToKey (iface data) oldPath of
                            Inl err \<Rightarrow> (Some (RENAME_KEY_ERROR (Inl err)), w')
                          | Inr v \<Rightarrow>
                              (case SetValueAtPath data newPath v True of
                                 Inl PanicNilMap \<Rightarrow> (Some Panic, w')
                               | Inl err \<Rightarrow> (Some (RENAME_KEY_ERROR (Inl err)), w')
                               | Inr data1 \<Rightarrow>
                                   (case RemoveKeyAtPath data1 oldPath of
                                      Inl err \<Rightarrow> (Some (RENAME_KEY_ERROR (Inl err)), w')
                                    | Inr (removed, data2) \<Rightarrow>
                                        (let cyclic =
                                           (stored_below_itself data oldPath newPath \<and>
                                            removal_place (entries data1) oldPath \<noteq>
                                              key_place (entries data) oldPath)
                                         in case SaveJSON (if cyclic then on_cycle J else J)
                                                   e handler w' data2 2 of
                                              (Some err, handler', w'') \<Rightarrow>
                                                (Some (RENAME_KEY_ERROR (Inr err)), w'')
                                            | (None, handler', w'') \<Rightarrow> (None, w'')))))))))"

definition RemoveKey ::
  "codec \<Rightarrow> env \<Rightarrow> world \<Rightarrow> string \<Rightarrow> string \<Rightarrow> (op_error + json) \<times> world" where
  "RemoveKey J e w file keyPath =
     (case LoadJSON J e (NewJSONHandler file) w True of
        (Inl err, handler, w') \<Rightarrow> (Inl (HandlerError err), w')
      | (Inr data, handler, w') \<Rightarrow>
          (case ValidatePath keyPath of
             Some err \<Rightarrow> (Inl (INVALID_PATH err), w')
           | None \<Rightarrow>
               if \<not> KeyExists (iface data) keyPath then (Inl (KEY_NOT_FOUND keyPath file), w')
               else
                 (case RemoveKeyAtPath data keyPath of
                    Inl err \<Rightarrow> (Inl (REMOVE_KEY_ERROR (Inl err)), w')
                  | Inr (removedValue, data') \<Rightarrow>
                      (case SaveJSON J e handler w' data' 2 of
                         (Some err, handler', w'') \<Rightarrow> (Inl (REMOVE_KEY_ERROR (Inr err)), w'')
                       | (None, handler', w'') \<Rightarrow> (Inr removedValue, w'')))))"

text \<open>\<^verbatim>\<open>operations.KeyExists\<close>; \<open>KeyExists\<close> above is \<^verbatim>\<open>pathresolver.KeyExists\<close>.\<close>

definition KeyExists_op ::
  "codec \<Rightarrow> env \<Rightarrow> world \<Rightarrow> string \<Rightarrow> string \<Rightarrow> (op_error + bool) \<times> world" where
  "KeyExists_op J e w file keyPath =
     (case LoadJSON J e (NewJSONHandler file) w True of
        (Inl err, handler, w') \<Rightarrow> (Inl (HandlerError err), w')
      | (Inr data, handler, w') \<Rightarrow> (Inr (KeyExists (iface data) keyPath), w'))"

text \<open>
  \<^verbatim>\<open>operations.ValidateJSON\<close> never returns an error; \<open>None\<close> is the panic of
  \<^verbatim>\<open>ValidateJSONSyntax\<close>. The file size of the metrics is overwritten with the size
  \<^verbatim>\<open>GetFileInfo\<close> saw.
\<close>

definition ValidateJSON :: "codec \<Rightarrow> env \<Rightarrow> world \<Rightarrow> string \<Rightarrow> ValidationResult option \<times> world" where
  "ValidateJSON J e w file =
     (let handler = NewJSONHandler file;
          fileInfo = GetFileInfo e handler w
      in case ValidateJSONSyntax J e handler w of
           (None, w') \<Rightarrow> (None, w')
         | (Some result, w') \<Rightarrow>
             (Some (if Valid result \<and> Performance result \<noteq> None \<and> Exists fileInfo
                    then result\<lparr>Performance := Some \<lparr>FileSize = SizeBytes fileInfo\<rparr>\<rparr>
                    else result), w'))"


section \<open>Places and examples\<close>

text \<open>
  \<open>walk v ks\<close> is the value reached from \<open>v\<close> by the keys \<open>ks\<close>, each looked up as it
  stands in the object reached so far.
\<close>

fun walk :: "json \<Rightarrow> string list \<Rightarrow> json option" where
  "walk v [] = Some v"
| "walk v (k # ks) =
     (case as_map v of
        None \<Rightarrow> None
      | Some m \<Rightarrow> (case map_of m k of None \<Rightarrow> None | Some c \<Rightarrow> walk c ks))"

text \<open>
  A decoder and encoder that know the documents of the examples below, each with one text
  (written on one line), and a file system that holds one file and answers without faults.
\<close>

definition example_texts :: "(bytes \<times> obj) list" where
  "example_texts =
     [(''{\"a.b\":1,\"a\":{\"b\":2}}'', [(''a.b'', JNumber 1), (''a'', JObject [(''b'', JNumber 2)])]),
      (''{\"a.b\":1}'', [(''a.b'', JNumber 1)]),
      (''{\"simple\":\"value\"}'', [(''simple'', JString ''value'')]),
      (''{\"a\":{\"b.c\":\"x\"}}'', [(''a'', JObject [(''b.c'', JString ''x'')])]),
      (''{\"a\":1,\"s\":5}'', [(''a'', JNumber 1), (''s'', JNumber 5)]),
      (''{\"s\":5}'', [(''s'', JNumber 5)]),
      (''{\"a\":{\"x\":1}}'', [(''a'', JObject [(''x'', JNumber 1)])]),
      (''{\"a\":{\"b\":{\"x\":1}}}'', [(''a'', JObject [(''b'', JObject [(''x'', JNumber 1)])])]),
      (''{\"a\":1}'', [(''a'', JNumber 1)]),
      (''{\"b\":1}'', [(''b'', JNumber 1)]),
      (''{}'', []),
      (''{\"a.b\":{\"c\":\"X\"},\"a\":{\"b\":{\"c\":{\"m\":\"v\"}}}}'',
       [(''a.b'', JObject [(''c'', JString ''X'')]),
        (''a'', JObject [(''b'', JObject [(''c'', JObject [(''m'', JString ''v'')])])])]),
      (''{\"a.b\":{},\"a\":{\"b\":{\"c\":{\"m\":\"v\"}}}}'',
       [(''a.b'', JObject []),
        (''a'', JObject [(''b'', JObject [(''c'', JObject [(''m'', JString ''v'')])])])]),
      (''{\"a.b\":{},\"a\":{\"b\":{\"c\":{\"m\":\"v\",\"d\":{\"m\":\"v\"}}}}}'',
       [(''a.b'', JObject []),
        (''a'', JObject [(''b'', JObject [(''c'', JObject [(''m'', JString ''v''),
           (''d'', JObject [(''m'', JString ''v'')])])])])])]"

definition example_codec :: codec where
  "example_codec =
     \<lparr>unmarshal_map =
        (\<lambda>text. case map_of example_texts text of
                   Some m \<Rightarrow> Inr (Some m)
                 | None \<Rightarrow> Inl (SyntaxError 1 ''invalid character'')),
      unmarshal_any =
        (\<lambda>text. case map_of example_texts text of
                   Some m \<Rightarrow> None
                 | None \<Rightarrow> Some (SyntaxError 1 ''invalid character'')),
      encode_indent =
        (\<lambda>data indent. case data of
                   None \<Rightarrow> Some ''null''
                 | Some m \<Rightarrow> map_of (map (\<lambda>(text, m'). (m', text)) example_texts) m)\<rparr>"

definition no_faults :: env where
  "no_faults =
     \<lparr>stat_error = False, read_error = False, write_error = None,
      temp_path = ''/data/0123.tmp'', clock = 9\<rparr>"

definition disk :: "bytes \<Rightarrow> world" where
  "disk text =
     \<lparr>files = [''/data/doc.json'' \<mapsto> \<lparr>content = text, modTime = 4\<rparr>], reads = 0\<rparr>"

text \<open>
  The position as the specification words it: the line is one more than the number of line
  feeds among the bytes before the offset, the column one more than the number of bytes
  after the last of them (the column starts again after each line feed). An offset past
  the end counts all bytes, a negative one none.
\<close>

definition position_by_line_feeds :: "bytes \<Rightarrow> int \<Rightarrow> int \<times> int" where
  "position_by_line_feeds data offset =
     (let seen = take (nat offset) data
      in (1 + int (length (filter (\<lambda>b. b = CHR 0x0A) seen)),
          1 + int (length (takeWhile (\<lambda>b. b \<noteq> CHR 0x0A) (rev seen)))))"

text \<open>
  Two notions for comparing a rename with its steps. \<open>create_set\<close> is the loop of
  \<^verbatim>\<open>CreateNestedPath\<close> followed by the assignment of \<^verbatim>\<open>SetValueAtPath\<close>, as one recursion
  over all the segments (\<open>SetValueAtPath_create\<close> below proves it equal to the two).
  \<open>delete_at\<close> removes the entry at a place; \<open>RemoveKeyAtPath_Inr\<close> below proves that
  \<^verbatim>\<open>RemoveKeyAtPath\<close> removes the entry at \<open>removal_place\<close>.
\<close>

fun create_set :: "string list \<Rightarrow> nat \<Rightarrow> obj \<Rightarrow> string list \<Rightarrow> json \<Rightarrow> path_error + obj" where
  "create_set keys i current [] v = Inr current"
| "create_set keys i current [key] v = Inr (AList.update key v current)"
| "create_set keys i current (key # rest) v =
     (case map_of current key of
        Some c \<Rightarrow>
          (case as_map c of
             Some valueMap \<Rightarrow>
               (case create_set keys (i + 1) valueMap rest v of
                  Inl err \<Rightarrow> Inl err
                | Inr valueMap' \<Rightarrow> Inr (AList.update key (JObject valueMap') current))
           | None \<Rightarrow> Inl (ErrPathConflict (join_dot (take (i + 1) keys))))
      | None \<Rightarrow>
          (case create_set keys (i + 1) [] rest v of
             Inl err \<Rightarrow> Inl err
           | Inr newMap \<Rightarrow> Inr (AList.update key (JObject newMap) current)))"

fun delete_at :: "string list \<Rightarrow> obj \<Rightarrow> obj" where
  "delete_at [] m = m"
| "delete_at [k] m = AList.delete k m"
| "delete_at (k # ks) m =
     (case map_of m k of
        Some (JObject c) \<Rightarrow> AList.update k (JObject (delete_at ks c)) m
      | _ \<Rightarrow> m)"

text \<open>
  The sequence the specification compares a rename with: \<^verbatim>\<open>value = Get(old); Remove(old);
  Add(new, value)\<close>, three operations of the package, each with its own load and save, the
  sequence stopping at the first that fails.
\<close>

definition GetRemoveAdd ::
  "codec \<Rightarrow> env \<Rightarrow> env \<Rightarrow> env \<Rightarrow> world \<Rightarrow> string \<Rightarrow> string \<Rightarrow> string \<Rightarrow> op_error option \<times> world" where
  "GetRemoveAdd J e1 e2 e3 w file oldPath newPath =
     (case GetKey J e1 w file oldPath of
        (Inl err, w1) \<Rightarrow> (Some err, w1)
      | (Inr v, w1) \<Rightarrow>
          (case RemoveKey J e2 w1 file oldPath of
             (Inl err, w2) \<Rightarrow> (Some err, w2)
           | (Inr removed, w2) \<Rightarrow> AddKey J e3 w2 file newPath v))"

text \<open>
  An environment without faults, whose temporary name is free; and a document that the
  encoder writes (with the indent of two the operations use) and the decoder reads back.
\<close>

definition fault_free :: "env \<Rightarrow> world \<Rightarrow> bool" where
  "fault_free e w =
     (\<not> stat_error e \<and> \<not> read_error e \<and> write_error e = None \<and> files w (temp_path e) = None)"

definition round_trip :: "codec \<Rightarrow> gomap \<Rightarrow> bool" where
  "round_trip J d =
     (case encode_indent J d (getIndentString 2) of
        None \<Rightarrow> False
      | Some b \<Rightarrow> unmarshal_map J b = Inr d)"

section \<open>Lemmas on splitting, walking and loading\<close>

lemma split_on_nonempty: "split_on c s \<noteq> []"
  by (induction s) (auto split: list.splits)

lemma split_on_append:
  "c \<notin> set a \<Longrightarrow> split_on c (a @ c # rest) = a # split_on c rest"
  by (induction a) (auto split: list.splits)

lemma split_on_no_sep: "c \<notin> set a \<Longrightarrow> split_on c a = [a]"
  by (induction a) (auto split: list.splits)

lemma SplitPath_nonempty: "keyPath \<noteq> [] \<Longrightarrow> SplitPath keyPath \<noteq> []"
  by (simp add: SplitPath_def split_on_nonempty)

lemma load_example:
  "map_of example_texts text = Some m \<Longrightarrow>
   LoadJSON example_codec no_faults (NewJSONHandler ''/data/doc.json'') (disk text) True =
     (Inr (Some m), \<lparr>filePath = ''/data/doc.json'', cachedData = Some m, fileMTime = 4\<rparr>,
      (disk text)\<lparr>reads := 1\<rparr>)"
  by (simp add: LoadJSON_def os_Stat_def os_ReadFile_def NewJSONHandler_def disk_def
      no_faults_def example_codec_def)

text \<open>
  The loop stops at the first value on its way that is not an object, and names the
  segments walked up to it; it stops at the first missing key, and names the whole path.
\<close>

lemma navigate_loop_walk:
  "walk current (take n rest) = Some v \<Longrightarrow> n < length rest \<Longrightarrow> as_map v = None \<Longrightarrow>
   navigate_loop keyPath keys i current rest =
     Inl (ErrPathError (NonObjectAt (join_dot (take (i + n) keys))))"
proof (induction rest arbitrary: current n i)
  case Nil
  then show ?case by simp
next
  case (Cons key rest)
  show ?case
  proof (cases n)
    case 0
    with Cons.prems show ?thesis by simp
  next
    case (Suc n')
    with Cons.prems obtain m c where m: "as_map current = Some m" "map_of m key = Some c"
      and w: "walk c (take n' rest) = Some v"
      by (auto split: option.splits)
    from Cons.IH[OF w, of "i + 1"] Cons.prems Suc m show ?thesis by simp
  qed
qed

lemma navigate_loop_missing:
  "walk current (take n rest) = Some v \<Longrightarrow> n < length rest \<Longrightarrow> as_map v = Some m \<Longrightarrow>
   map_of m (rest ! n) = None \<Longrightarrow>
   navigate_loop keyPath keys i current rest = Inl (ErrKeyNotFound keyPath)"
proof (induction rest arbitrary: current n i)
  case Nil
  then show ?case by simp
next
  case (Cons key rest)
  show ?case
  proof (cases n)
    case 0
    with Cons.prems show ?thesis by simp
  next
    case (Suc n')
    with Cons.prems obtain m' c where m: "as_map current = Some m'" "map_of m' key = Some c"
      and w: "walk c (take n' rest) = Some v"
      by (auto split: option.splits)
    from Cons.IH[OF w, of "i + 1"] Cons.prems Suc m show ?thesis by simp
  qed
qed

text \<open>
  Lookups, read as walks: a lookup succeeds exactly when the walk along \<open>key_place\<close> does.
\<close>

lemma navigate_loop_Inr:
  "(navigate_loop P K i cur ks = Inr v) = (walk cur ks = Some v)"
  by (induction ks arbitrary: cur i) (auto split: option.splits)

lemma NavigateToKey_Inr:
  "(NavigateToKey (JObject m) p = Inr v) = (p \<noteq> [] \<and> walk (JObject m) (key_place m p) = Some v)"
  by (auto simp: NavigateToKey_def ValidatePath_def key_place_def navigate_loop_Inr
      split: option.splits)

lemma KeyExists_NavigateToKey: "KeyExists d p = (\<exists>v. NavigateToKey d p = Inr v)"
  by (auto simp: KeyExists_def NavigateToKey_def split: option.splits sum.splits)

lemma KeyExists_walk:
  "KeyExists (JObject m) p = (p \<noteq> [] \<and> walk (JObject m) (key_place m p) \<noteq> None)"
  by (auto simp: KeyExists_NavigateToKey NavigateToKey_Inr)

section \<open>The claims\<close>

text \<open>
  C1. Whenever the root object of the loaded document holds a key \<open>k\<close> that contains a
  dot, \<^verbatim>\<open>GetKey\<close> with the path string \<open>k\<close> returns the root's entry for \<open>k\<close>: the whole
  string is tried as a key before the path is split. Nothing is assumed about what the
  segments of \<open>k\<close> would reach; in the witness they reach another value.
\<close>

theorem C1_literal_key_first:
  assumes "fst (LoadJSON J e (NewJSONHandler file) w True) = Inr data"
    and "CHR ''.'' \<in> set k"
    and "map_of (entries data) k = Some v"
  shows "fst (GetKey J e w file k) = Inr v"
  using assms
  by (auto simp: GetKey_def NavigateToKey_def ValidatePath_def iface_def
      split: prod.splits sum.splits)

theorem C1_witness:
  "fst (GetKey example_codec no_faults (disk ''{\"a.b\":1,\"a\":{\"b\":2}}'') ''/data/doc.json'' ''a.b'')
     = Inr (JNumber 1) \<and>
   walk (JObject [(''a.b'', JNumber 1), (''a'', JObject [(''b'', JNumber 2)])]) (SplitPath ''a.b'')
     = Some (JNumber 2)"
  using C1_literal_key_first[of example_codec no_faults "''/data/doc.json''"
      "disk ''{\"a.b\":1,\"a\":{\"b\":2}}''"
      "Some [(''a.b'', JNumber 1), (''a'', JObject [(''b'', JNumber 2)])]" "''a.b''" "JNumber 1"]
  by (simp add: load_example example_texts_def entries_def SplitPath_def)

text \<open>
  C10. The existence check is true exactly when the read-style lookup on the same value and
  path returns a value, in package pathresolver for every value (object or not) and every
  path string, and in package operations for every file and path string. The witness takes
  a literal dotted key, the empty path, and a path through a value that is not an object.
\<close>

theorem C10_exists_iff_lookup_succeeds:
  "KeyExists d keyPath = (\<exists>v. NavigateToKey d keyPath = Inr v) \<and>
   (fst (KeyExists_op J e w file keyPath) = Inr True) =
     (\<exists>v. fst (GetKey J e w file keyPath) = Inr v)"
proof
  have k: "KeyExists d' keyPath = (\<exists>v. NavigateToKey d' keyPath = Inr v)" for d'
    by (auto simp: KeyExists_def NavigateToKey_def split: option.splits sum.splits)
  show "KeyExists d keyPath = (\<exists>v. NavigateToKey d keyPath = Inr v)"
    by (rule k)
  show "(fst (KeyExists_op J e w file keyPath) = Inr True) =
     (\<exists>v. fst (GetKey J e w file keyPath) = Inr v)"
    by (auto simp: KeyExists_op_def GetKey_def k split: prod.splits sum.splits path_error.splits)
qed

theorem C10_witness:
  "KeyExists (JObject [(''a.b'', JNumber 1)]) ''a.b'' \<and>
   NavigateToKey (JObject [(''a.b'', JNumber 1)]) ''a.b'' = Inr (JNumber 1) \<and>
   \<not> KeyExists (JObject [(''a.b'', JNumber 1)]) [] \<and>
   \<not> KeyExists (JObject [(''simple'', JString ''value'')]) ''simple.invalid''"
  using C10_exists_iff_lookup_succeeds[of "JObject [(''a.b'', JNumber 1)]" "''a.b''"]
    C10_exists_iff_lookup_succeeds[of "JObject [(''a.b'', JNumber 1)]" "[]"]
    C10_exists_iff_lookup_succeeds[of "JObject [(''simple'', JString ''value'')]" "''simple.invalid''"]
  by (simp add: NavigateToKey_def ValidatePath_def SplitPath_def)

text \<open>What \<^verbatim>\<open>GetKey\<close> returns once the file has loaded: the lookup's result, errors renamed.\<close>

lemma GetKey_loaded:
  "fst (LoadJSON J e (NewJSONHandler file) w True) = Inr data \<Longrightarrow>
   fst (GetKey J e w file keyPath) =
     (case NavigateToKey (iface data) keyPath of
        Inl (ErrKeyNotFound p) \<Rightarrow> Inl (KEY_NOT_FOUND keyPath file)
      | Inl ErrInvalidPath \<Rightarrow> Inl (INVALID_PATH ErrInvalidPath)
      | Inl err \<Rightarrow> Inl (PATH_ERROR err)
      | Inr v \<Rightarrow> Inr v)"
  by (auto simp: GetKey_def split: prod.splits sum.splits path_error.splits)

text \<open>
  C7. The whole-string match is tried on the root only. When the root has no key
  \<open>a.b.c\<close> and its entry \<open>a\<close> is an object without a key \<open>b\<close>, \<^verbatim>\<open>GetKey\<close> with the path
  \<open>a.b.c\<close> fails with KEY_NOT_FOUND, although that object holds the key \<open>b.c\<close> (the value
  \<open>x\<close> is there, one exact key below \<open>a\<close>). \<open>a\<close> and \<open>b\<close> are any segments, \<open>c\<close> any
  rest of the path, and the root and the object may hold any other keys.
\<close>

theorem C7_no_literal_match_below_root:
  assumes "fst (LoadJSON J e (NewJSONHandler file) w True) = Inr data"
    and "CHR ''.'' \<notin> set a" and "CHR ''.'' \<notin> set b"
    and "map_of (entries data) (a @ ''.'' @ b @ ''.'' @ c) = None"
    and "map_of (entries data) a = Some (JObject inner)"
    and "map_of inner (b @ ''.'' @ c) = Some x"
    and "map_of inner b = None"
  shows "walk (iface data) [a, b @ ''.'' @ c] = Some x \<and>
         fst (GetKey J e w file (a @ ''.'' @ b @ ''.'' @ c)) =
           Inl (KEY_NOT_FOUND (a @ ''.'' @ b @ ''.'' @ c) file)"
proof -
  have s: "SplitPath (a @ CHR ''.'' # b @ CHR ''.'' # c) = a # b # split_on CHR ''.'' c"
    using assms(2,3) by (simp add: SplitPath_def split_on_append)
  have "NavigateToKey (iface data) (a @ ''.'' @ b @ ''.'' @ c) =
          Inl (ErrKeyNotFound (a @ ''.'' @ b @ ''.'' @ c))"
    using assms(4,5,7) by (simp add: NavigateToKey_def ValidatePath_def iface_def s)
  then show ?thesis
    using assms(1,5,6) by (simp add: GetKey_loaded iface_def)
qed

theorem C7_witness:
  "fst (GetKey example_codec no_faults (disk ''{\"a\":{\"b.c\":\"x\"}}'') ''/data/doc.json'' ''a.b.c'')
     = Inl (KEY_NOT_FOUND ''a.b.c'' ''/data/doc.json'')"
  using C7_no_literal_match_below_root[of example_codec no_faults "''/data/doc.json''"
      "disk ''{\"a\":{\"b.c\":\"x\"}}''" "Some [(''a'', JObject [(''b.c'', JString ''x'')])]"
      "''a''" "''b''" "''c''" "[(''b.c'', JString ''x'')]" "JString ''x''"]
  by (simp add: load_example example_texts_def entries_def)

text \<open>
  C3 as the code has it. The claim as stated fails: on the document
  \<^verbatim>\<open>{"simple":"value"}\<close> the path \<open>simple.invalid\<close> meets the string at \<open>simple\<close>, and
  \<^verbatim>\<open>GetKey\<close> fails with PATH_ERROR, naming the prefix \<open>simple\<close>, not with KEY_NOT_FOUND.
\<close>

theorem C3_counterexample:
  "walk (JObject [(''simple'', JString ''value'')]) [''simple''] = Some (JString ''value'') \<and>
   fst (GetKey example_codec no_faults (disk ''{\"simple\":\"value\"}'') ''/data/doc.json''
          ''simple.invalid'')
     = Inl (PATH_ERROR (ErrPathError (NonObjectAt ''simple''))) \<and>
   fst (GetKey example_codec no_faults (disk ''{\"simple\":\"value\"}'') ''/data/doc.json''
          ''simple.invalid'')
     \<noteq> Inl (KEY_NOT_FOUND ''simple.invalid'' ''/data/doc.json'')"
  by (simp add: GetKey_def load_example example_texts_def NavigateToKey_def ValidatePath_def
      iface_def entries_def SplitPath_def)

text \<open>
  C3, amended. During split navigation of a read-style lookup (the root has no key equal to
  the whole path), let the first \<open>i\<close> segments lead to a value \<open>v\<close>, with a segment \<open>i\<close>
  still to walk. If \<open>v\<close> is not an object, the lookup fails with PATH_ERROR and the error
  names the prefix walked so far (the first \<open>i\<close> segments joined by dots). If \<open>v\<close> is an
  object without the key of segment \<open>i\<close>, the lookup fails with KEY_NOT_FOUND and the error
  names the full original path.
\<close>

theorem C3_non_object_is_path_error:
  assumes "fst (LoadJSON J e (NewJSONHandler file) w True) = Inr data"
    and "map_of (entries data) keyPath = None"
    and "i < length (SplitPath keyPath)"
    and "walk (iface data) (take i (SplitPath keyPath)) = Some v"
  shows "(as_map v = None \<longrightarrow>
            fst (GetKey J e w file keyPath) =
              Inl (PATH_ERROR (ErrPathError (NonObjectAt (join_dot (take i (SplitPath keyPath))))))) \<and>
         (\<forall>m. as_map v = Some m \<and> map_of m (SplitPath keyPath ! i) = None \<longrightarrow>
            fst (GetKey J e w file keyPath) = Inl (KEY_NOT_FOUND keyPath file))"
proof -
  from assms(3) have ne: "keyPath \<noteq> []" by (auto simp: SplitPath_def)
  have nav: "NavigateToKey (iface data) keyPath =
      navigate_loop keyPath (SplitPath keyPath) 0 (iface data) (SplitPath keyPath)"
    using ne assms(2) by (simp add: NavigateToKey_def ValidatePath_def iface_def)
  show ?thesis
    using navigate_loop_walk[OF assms(4,3), of keyPath "SplitPath keyPath" 0]
      navigate_loop_missing[OF assms(4,3), of _ keyPath "SplitPath keyPath" 0]
    by (auto simp: GetKey_loaded[OF assms(1)] nav)
qed

theorem C3_witness:
  "fst (GetKey example_codec no_faults (disk ''{\"a\":1,\"s\":5}'') ''/data/doc.json'' ''s.t.u'')
     = Inl (PATH_ERROR (ErrPathError (NonObjectAt ''s''))) \<and>
   fst (GetKey example_codec no_faults (disk ''{\"a\":{\"x\":1}}'') ''/data/doc.json'' ''a.y.z'')
     = Inl (KEY_NOT_FOUND ''a.y.z'' ''/data/doc.json'')"
  using C3_non_object_is_path_error[of example_codec no_faults "''/data/doc.json''"
      "disk ''{\"a\":1,\"s\":5}''" "Some [(''a'', JNumber 1), (''s'', JNumber 5)]" "''s.t.u''" 1
      "JNumber 5"]
    C3_non_object_is_path_error[of example_codec no_faults "''/data/doc.json''"
      "disk ''{\"a\":{\"x\":1}}''" "Some [(''a'', JObject [(''x'', JNumber 1)])]" "''a.y.z''" 1
      "JObject [(''x'', JNumber 1)]"]
  by (simp add: load_example example_texts_def entries_def iface_def SplitPath_def)

text \<open>
  C4 as the code has it. The claim as stated fails: for the empty path
  \<^verbatim>\<open>operations.KeyExists\<close> does not fail with INVALID_PATH, it returns false.
\<close>

theorem C4_counterexample:
  "fst (KeyExists_op example_codec no_faults (disk ''{}'') ''/data/doc.json'' []) = Inr False"
  by (simp add: KeyExists_op_def load_example example_texts_def KeyExists_def ValidatePath_def)

text \<open>
  C4, amended. \<^verbatim>\<open>operations.KeyExists\<close> returns a boolean whenever the document loads: the
  answer of \<^verbatim>\<open>pathresolver.KeyExists\<close>, which is false, not an error, for an absent key and
  for the empty path. The boolean is true exactly for a path that is not empty and is a key
  of the root as a whole string, or whose segments walk from the root to a value; so it is
  false for every absent key. The operation fails only when the document does not load, with
  the loader's error, and never with INVALID_PATH.
\<close>

theorem C4_exists_fails_only_on_load:
  "(fst (LoadJSON J e (NewJSONHandler file) w True) = Inr data \<longrightarrow>
      fst (KeyExists_op J e w file keyPath) = Inr (KeyExists (iface data) keyPath)) \<and>
   (fst (LoadJSON J e (NewJSONHandler file) w True) = Inl err \<longrightarrow>
      fst (KeyExists_op J e w file keyPath) = Inl (HandlerError err)) \<and>
   fst (KeyExists_op J e w file keyPath) \<noteq> Inl (INVALID_PATH perr) \<and>
   \<not> KeyExists (iface data) [] \<and>
   (fst (LoadJSON J e (NewJSONHandler file) w True) = Inr data \<longrightarrow>
      fst (KeyExists_op J e w file keyPath) =
        Inr (keyPath \<noteq> [] \<and>
             (map_of (entries data) keyPath \<noteq> None \<or>
              walk (iface data) (SplitPath keyPath) \<noteq> None)))"
proof -
  have answer: "KeyExists (iface data) keyPath =
      (keyPath \<noteq> [] \<and>
       (map_of (entries data) keyPath \<noteq> None \<or> walk (iface data) (SplitPath keyPath) \<noteq> None))"
    by (auto simp: iface_def KeyExists_walk key_place_def)
  have first: "fst (KeyExists_op J e w file keyPath) = Inr (KeyExists (iface data) keyPath)"
    if "fst (LoadJSON J e (NewJSONHandler file) w True) = Inr data"
    using that by (auto simp: KeyExists_op_def split: prod.splits sum.splits)
  have second: "fst (KeyExists_op J e w file keyPath) = Inl (HandlerError err)"
    if "fst (LoadJSON J e (NewJSONHandler file) w True) = Inl err"
    using that by (auto simp: KeyExists_op_def split: prod.splits sum.splits)
  have third: "fst (KeyExists_op J e w file keyPath) \<noteq> Inl (INVALID_PATH perr)"
    by (auto simp: KeyExists_op_def split: prod.splits sum.splits)
  have fourth: "\<not> KeyExists (iface data) []"
    by (simp add: KeyExists_def ValidatePath_def)
  from first second third fourth answer show ?thesis by simp
qed

theorem C4_witness:
  "fst (KeyExists_op example_codec no_faults (disk ''{\"a.b\":1}'') ''/data/doc.json'' ''a.c'')
     = Inr False \<and>
   fst (KeyExists_op example_codec no_faults (disk ''{\"a.b\":1}'') ''/data/doc.json'' ''a.b'')
     = Inr True \<and>
   fst (KeyExists_op example_codec no_faults (disk ''{\"a.b\":1}'') ''/data/other.json'' ''a.b'')
     = Inl (HandlerError ErrFileNotFound)"
proof -
  have absent: "fst (LoadJSON example_codec no_faults (NewJSONHandler ''/data/other.json'')
      (disk ''{\"a.b\":1}'') True) = Inl ErrFileNotFound"
    by (simp add: LoadJSON_def os_Stat_def no_faults_def disk_def NewJSONHandler_def)
  have loaded: "fst (LoadJSON example_codec no_faults (NewJSONHandler ''/data/doc.json'')
      (disk ''{\"a.b\":1}'') True) = Inr (Some [(''a.b'', JNumber 1)])"
    by (simp add: load_example example_texts_def)
  have c: "fst (KeyExists_op example_codec no_faults (disk ''{\"a.b\":1}'') ''/data/doc.json''
      ''a.c'') = Inr False"
    using C4_exists_fails_only_on_load[of example_codec no_faults "''/data/doc.json''"
        "disk ''{\"a.b\":1}''" "Some [(''a.b'', JNumber 1)]" "''a.c''" _ ErrInvalidPath]
    unfolding loaded by (auto simp: entries_def iface_def SplitPath_def)
  have b: "fst (KeyExists_op example_codec no_faults (disk ''{\"a.b\":1}'') ''/data/doc.json''
      ''a.b'') = Inr True"
    using C4_exists_fails_only_on_load[of example_codec no_faults "''/data/doc.json''"
        "disk ''{\"a.b\":1}''" "Some [(''a.b'', JNumber 1)]" "''a.b''" _ ErrInvalidPath]
    unfolding loaded by (auto simp: entries_def iface_def SplitPath_def)
  have o: "fst (KeyExists_op example_codec no_faults (disk ''{\"a.b\":1}'') ''/data/other.json''
      ''a.b'') = Inl (HandlerError ErrFileNotFound)"
    using C4_exists_fails_only_on_load[of example_codec no_faults "''/data/other.json''"
        "disk ''{\"a.b\":1}''" _ "''a.b''" ErrFileNotFound ErrInvalidPath]
    unfolding absent by auto
  from c b o show ?thesis by simp
qed

text \<open>
  The loop of \<^verbatim>\<open>getLineColumn\<close> from index \<open>i\<close> on, in closed form: it counts the line
  feeds of the bytes from \<open>i\<close> up to the offset, and the column is that of the last line.
\<close>

lemma takeWhile_rev_absent:
  "c \<notin> set xs \<Longrightarrow> takeWhile (\<lambda>b. b \<noteq> c) (rev xs) = rev xs"
  by (auto simp: takeWhile_eq_all_conv)

lemma getLineColumn_loop_eq:
  "getLineColumn_loop data offset i line col =
     (let seg = drop i (take (nat offset) data)
      in (line + int (length (filter (\<lambda>b. b = CHR 0x0A) seg)),
          if CHR 0x0A \<in> set seg
          then 1 + int (length (takeWhile (\<lambda>b. b \<noteq> CHR 0x0A) (rev seg)))
          else col + int (length seg)))"
proof (induction data offset i line col rule: getLineColumn_loop.induct)
  case (1 data offset i line col)
  show ?case
  proof (cases "int i < offset \<and> i < length data")
    case False
    then have "drop i (take (nat offset) data) = []" by auto
    moreover from False have "getLineColumn_loop data offset i line col = (line, col)"
      by (subst getLineColumn_loop.simps) auto
    ultimately show ?thesis by simp
  next
    case True
    then have len: "i < length (take (nat offset) data)" by auto
    have seg: "drop i (take (nat offset) data) = data ! i # drop (Suc i) (take (nat offset) data)"
      using Cons_nth_drop_Suc[OF len] len by simp
    show ?thesis
    proof (cases "data ! i = CHR 0x0A")
      case nl: True
      from "1.IH"(1)[OF True nl] True nl show ?thesis
        by (subst getLineColumn_loop.simps) (simp add: seg Let_def takeWhile_tail takeWhile_rev_absent)
    next
      case nl: False
      from "1.IH"(2)[OF True nl] True nl show ?thesis
        by (subst getLineColumn_loop.simps) (simp add: seg Let_def takeWhile_tail takeWhile_rev_absent)
    qed
  qed
qed

lemma getLineColumn_spec: "getLineColumn data offset = position_by_line_feeds data offset"
  by (simp add: getLineColumn_def getLineColumn_loop_eq position_by_line_feeds_def Let_def
      takeWhile_rev_absent)

text \<open>
  C9. For an empty file \<^verbatim>\<open>ValidateJSON\<close> returns valid = false, error type PARSE_ERROR,
  line 1, column 1. For a file that is read and whose parse fails with a syntax error
  carrying a byte offset, the reported line and column are the position by line feeds over
  the bytes before that offset, as the specification words it; \<^verbatim>\<open>getLineColumn\<close> computes
  that position for every byte string and every offset.
\<close>

theorem C9_validate_positions:
  "(files w file = Some f \<and> content f = [] \<and> \<not> stat_error e \<longrightarrow>
      fst (ValidateJSON J e w file) =
        Some \<lparr>Valid = False, File = file,
              Error = Some \<lparr>Message = ''File is empty'', Line = 1, Column = 1\<rparr>,
              ErrorType = ''PARSE_ERROR'', Performance = None\<rparr>) \<and>
   (files w file = Some f \<and> content f \<noteq> [] \<and> \<not> stat_error e \<and> \<not> read_error e \<and>
    unmarshal_any J (content f) = Some (SyntaxError offset msg) \<longrightarrow>
      fst (ValidateJSON J e w file) =
        Some \<lparr>Valid = False, File = file,
              Error = Some \<lparr>Message = msg,
                             Line = fst (position_by_line_feeds (content f) offset),
                             Column = snd (position_by_line_feeds (content f) offset)\<rparr>,
              ErrorType = ''PARSE_ERROR'', Performance = None\<rparr>) \<and>
   getLineColumn data offset = position_by_line_feeds data offset"
  by (simp add: ValidateJSON_def ValidateJSONSyntax_def os_Stat_def os_ReadFile_def
      NewJSONHandler_def getLineColumn_spec GetFileInfo_def Let_def)

theorem C9_witness:
  "fst (ValidateJSON example_codec no_faults (disk []) ''/data/doc.json'') =
     Some \<lparr>Valid = False, File = ''/data/doc.json'',
           Error = Some \<lparr>Message = ''File is empty'', Line = 1, Column = 1\<rparr>,
           ErrorType = ''PARSE_ERROR'', Performance = None\<rparr> \<and>
   fst (ValidateJSON (example_codec\<lparr>unmarshal_any := \<lambda>text. Some (SyntaxError 7 ''invalid character'')\<rparr>)
          no_faults (disk (''{'' @ [CHR 0x0A] @ '' \"a\":x'')) ''/data/doc.json'') =
     Some \<lparr>Valid = False, File = ''/data/doc.json'',
           Error = Some \<lparr>Message = ''invalid character'', Line = 2, Column = 6\<rparr>,
           ErrorType = ''PARSE_ERROR'', Performance = None\<rparr> \<and>
   getLineColumn (''{'' @ [CHR 0x0A] @ '' \"a\":x'') 7 = (2, 6)"
  using C9_validate_positions[of "disk []" "''/data/doc.json''" "\<lparr>content = [], modTime = 4\<rparr>"
      no_faults example_codec 7 "''invalid character''" "''{'' @ [CHR 0x0A] @ '' \"a\":x''"]
    C9_validate_positions[of "disk (''{'' @ [CHR 0x0A] @ '' \"a\":x'')" "''/data/doc.json''"
      "\<lparr>content = ''{'' @ [CHR 0x0A] @ '' \"a\":x'', modTime = 4\<rparr>"
      no_faults "example_codec\<lparr>unmarshal_any := \<lambda>text. Some (SyntaxError 7 ''invalid character'')\<rparr>"
      7 "''invalid character''" "[]"]
  by (simp add: disk_def no_faults_def position_by_line_feeds_def example_codec_def)

text \<open>
  Loading never writes, and a save that fails leaves every file as it was: the temporary
  file is removed again. So an operation that returns an error has changed no file.
\<close>

lemma LoadJSON_files: "LoadJSON J e h w useCache = (r, h', w') \<Longrightarrow> files w' = files w"
  by (auto simp: LoadJSON_def os_ReadFile_def split: stat_result.splits option.splits sum.splits if_splits)

lemma SaveJSON_failure_files:
  "SaveJSON J e h w data indent = (Some err, h', w') \<Longrightarrow> files w' = files w"
  by (auto simp: SaveJSON_def Let_def os_WriteFile_def os_Remove_def
      split: if_splits option.splits)

lemma AddKey_failure_files:
  "AddKey J e w file keyPath v = (Some err, w') \<Longrightarrow> files w' = files w"
  by (auto simp: AddKey_def split: prod.splits sum.splits option.splits path_error.splits if_splits
      dest!: SaveJSON_failure_files LoadJSON_files)

lemma UpdateKey_failure_files:
  "UpdateKey J e w file keyPath v = (Some err, w') \<Longrightarrow> files w' = files w"
  by (auto simp: UpdateKey_def split: prod.splits sum.splits option.splits path_error.splits if_splits
      dest!: SaveJSON_failure_files LoadJSON_files)

lemma RemoveKey_failure_files:
  "RemoveKey J e w file keyPath = (Inl err, w') \<Longrightarrow> files w' = files w"
  by (auto simp: RemoveKey_def split: prod.splits sum.splits option.splits path_error.splits if_splits
      dest!: SaveJSON_failure_files LoadJSON_files)

lemma RenameKey_failure_files:
  "RenameKey J e w file oldPath newPath = (Some err, w') \<Longrightarrow> files w' = files w"
  by (auto simp: RenameKey_def split: prod.splits sum.splits option.splits path_error.splits if_splits
      dest!: SaveJSON_failure_files LoadJSON_files)

text \<open>
  C6. \<^verbatim>\<open>AddKey\<close> on a path that exists in the loaded document (by the whole-string or the
  split check of \<^verbatim>\<open>KeyExists\<close>) fails with KEY_EXISTS and leaves the files as they were,
  content and modification time. More generally each of \<^verbatim>\<open>AddKey\<close>, \<^verbatim>\<open>UpdateKey\<close>,
  \<^verbatim>\<open>RenameKey\<close> and \<^verbatim>\<open>RemoveKey\<close>, whenever it fails (before the save, in the save, or by
  a panic), leaves the files as they were.
\<close>

theorem C6_failed_mutation_leaves_file:
  "(fst (LoadJSON J e (NewJSONHandler file) w True) = Inr data \<and> KeyExists (iface data) keyPath \<longrightarrow>
      fst (AddKey J e w file keyPath v) = Some (KEY_EXISTS keyPath file) \<and>
      files (snd (AddKey J e w file keyPath v)) = files w) \<and>
   (fst (AddKey J e w file keyPath v) \<noteq> None \<longrightarrow>
      files (snd (AddKey J e w file keyPath v)) = files w) \<and>
   (fst (UpdateKey J e w file keyPath v) \<noteq> None \<longrightarrow>
      files (snd (UpdateKey J e w file keyPath v)) = files w) \<and>
   (fst (RenameKey J e w file keyPath newPath) \<noteq> None \<longrightarrow>
      files (snd (RenameKey J e w file keyPath newPath)) = files w) \<and>
   (isl (fst (RemoveKey J e w file keyPath)) \<longrightarrow>
      files (snd (RemoveKey J e w file keyPath)) = files w)"
proof -
  have "fst (AddKey J e w file keyPath v) = Some (KEY_EXISTS keyPath file)"
    if "fst (LoadJSON J e (NewJSONHandler file) w True) = Inr data" "KeyExists (iface data) keyPath"
    using that by (auto simp: AddKey_def split: prod.splits sum.splits)
  then show ?thesis
    using AddKey_failure_files[of J e w _ keyPath v] UpdateKey_failure_files[of J e w _ keyPath v]
      RenameKey_failure_files[of J e w _ keyPath newPath] RemoveKey_failure_files[of J e w _ keyPath]
    by (auto simp: isl_def fst_def snd_def split: prod.splits)
qed

theorem C6_witness:
  "fst (AddKey example_codec no_faults (disk ''{\"a.b\":1,\"a\":{\"b\":2}}'') ''/data/doc.json'' ''a.b''
          (JNumber 3)) = Some (KEY_EXISTS ''a.b'' ''/data/doc.json'') \<and>
   files (snd (AddKey example_codec no_faults (disk ''{\"a.b\":1,\"a\":{\"b\":2}}'') ''/data/doc.json''
          ''a.b'' (JNumber 3))) = files (disk ''{\"a.b\":1,\"a\":{\"b\":2}}'') \<and>
   files (snd (UpdateKey example_codec no_faults (disk ''{\"a.b\":1,\"a\":{\"b\":2}}'')
          ''/data/doc.json'' ''a.c'' (JNumber 3))) = files (disk ''{\"a.b\":1,\"a\":{\"b\":2}}'') \<and>
   files (snd (RenameKey example_codec no_faults (disk ''{\"a.b\":1,\"a\":{\"b\":2}}'')
          ''/data/doc.json'' ''a.b'' ''a.b'')) = files (disk ''{\"a.b\":1,\"a\":{\"b\":2}}'') \<and>
   files (snd (RemoveKey example_codec no_faults (disk ''{\"a.b\":1,\"a\":{\"b\":2}}'')
          ''/data/doc.json'' ''a.c'')) = files (disk ''{\"a.b\":1,\"a\":{\"b\":2}}'')"
proof -
  have k: "KeyExists (JObject [(''a.b'', JNumber 1), (''a'', JObject [(''b'', JNumber 2)])]) ''a.b''"
    "\<not> KeyExists (JObject [(''a.b'', JNumber 1), (''a'', JObject [(''b'', JNumber 2)])]) ''a.c''"
    by (simp_all add: KeyExists_def ValidatePath_def NavigateToKey_def SplitPath_def)
  have u: "fst (UpdateKey example_codec no_faults (disk ''{\"a.b\":1,\"a\":{\"b\":2}}'')
          ''/data/doc.json'' ''a.c'' (JNumber 3)) \<noteq> None"
    by (simp add: UpdateKey_def load_example example_texts_def iface_def entries_def k
        ValidatePath_def)
  have r: "fst (RenameKey example_codec no_faults (disk ''{\"a.b\":1,\"a\":{\"b\":2}}'')
          ''/data/doc.json'' ''a.b'' ''a.b'') \<noteq> None"
    by (simp add: RenameKey_def)
  have d: "isl (fst (RemoveKey example_codec no_faults (disk ''{\"a.b\":1,\"a\":{\"b\":2}}'')
          ''/data/doc.json'' ''a.c''))"
    by (simp add: RemoveKey_def load_example example_texts_def iface_def entries_def k
        ValidatePath_def)
  show ?thesis
    using C6_failed_mutation_leaves_file[of example_codec no_faults "''/data/doc.json''"
        "disk ''{\"a.b\":1,\"a\":{\"b\":2}}''"
        "Some [(''a.b'', JNumber 1), (''a'', JObject [(''b'', JNumber 2)])]" "''a.b''" "JNumber 3"
        "''a.b''"]
      C6_failed_mutation_leaves_file[of example_codec no_faults "''/data/doc.json''"
        "disk ''{\"a.b\":1,\"a\":{\"b\":2}}''"
        "Some [(''a.b'', JNumber 1), (''a'', JObject [(''b'', JNumber 2)])]" "''a.c''" "JNumber 3"
        "''a.b''"]
      u r d
    by (simp add: load_example example_texts_def iface_def entries_def k)
qed

text \<open>
  A load that asks for the cache, once \<^verbatim>\<open>os.Stat\<close> has answered: a hit returns the cached
  map and touches nothing; a miss reads the file and parses the bytes it holds now. A save
  that succeeds leaves the document in the cache and the file's new time beside it.
\<close>

lemma LoadJSON_hit:
  "os_Stat e w (filePath h) = StatInfo sz mt \<Longrightarrow> cachedData h \<noteq> None \<Longrightarrow> fileMTime h = mt \<Longrightarrow>
   LoadJSON J e h w True = (Inr (cachedData h), h, w)"
  by (simp add: LoadJSON_def)

lemma LoadJSON_miss:
  "os_Stat e w (filePath h) = StatInfo sz mt \<Longrightarrow> \<not> (cachedData h \<noteq> None \<and> fileMTime h = mt) \<Longrightarrow>
   reads (snd (snd (LoadJSON J e h w True))) = reads w + 1 \<and>
   (\<not> read_error e \<longrightarrow> files w (filePath h) = Some f \<longrightarrow>
      fst (LoadJSON J e h w True) =
        (case unmarshal_map J (content f) of
           Inl err \<Rightarrow> Inl ErrInvalidJSON
         | Inr jsonData \<Rightarrow> Inr jsonData))"
  by (auto simp: LoadJSON_def os_ReadFile_def split: option.splits sum.splits)

lemma SaveJSON_success:
  assumes "SaveJSON J e h w data indent = (None, h', w')"
    and "\<not> stat_error e" and "temp_path e \<noteq> filePath h"
  shows "cachedData h' = data \<and> filePath h' = filePath h \<and>
         (\<exists>text. encode_indent J data (getIndentString indent) = Some text \<and>
            files w' (filePath h) = Some \<lparr>content = text, modTime = fileMTime h'\<rparr>)"
  using assms
  by (auto simp: SaveJSON_def Let_def os_WriteFile_def os_Remove_def os_Rename_def os_Stat_def
      split: if_splits option.splits)

lemma save_example:
  "SaveJSON example_codec no_faults (NewJSONHandler ''/data/doc.json'') (disk ''{\"a\":1}'')
     (Some [(''b'', JNumber 1)]) 2 =
   (None,
    \<lparr>filePath = ''/data/doc.json'', cachedData = Some [(''b'', JNumber 1)], fileMTime = 9\<rparr>,
    \<lparr>files = [''/data/doc.json'' \<mapsto> \<lparr>content = ''{\"b\":1}'', modTime = 9\<rparr>], reads = 0\<rparr>)"
  by (auto simp: SaveJSON_def Let_def os_WriteFile_def os_Remove_def os_Rename_def os_Stat_def
      NewJSONHandler_def disk_def no_faults_def example_codec_def example_texts_def)

text \<open>
  C8. Once \<^verbatim>\<open>os.Stat\<close> has given the file's current modification time,
  \<^verbatim>\<open>LoadJSON(true)\<close> returns the cached document, with the handler and the world (its count
  of reads included) as they were, exactly when the cache holds a map and the recorded time
  equals the current one; otherwise it calls \<^verbatim>\<open>os.ReadFile\<close> once and returns the parse of
  the bytes read. After a successful \<^verbatim>\<open>SaveJSON\<close> of a document (an object, so not the nil
  map) the cache holds that document and the time of the file just written, so
  \<^verbatim>\<open>LoadJSON(true)\<close> on the same handler returns it without reading; and on any world in
  which the file carries another modification time the load reads and parses again. The
  save's own \<^verbatim>\<open>os.Stat\<close> and the later one are taken to succeed, and the temporary name to
  differ from the target's.
\<close>

theorem C8_cache_by_modification_time:
  "(os_Stat e w (filePath h) = StatInfo sz mt \<longrightarrow>
      (if cachedData h \<noteq> None \<and> fileMTime h = mt
       then LoadJSON J e h w True = (Inr (cachedData h), h, w)
       else reads (snd (snd (LoadJSON J e h w True))) = reads w + 1 \<and>
            (\<not> read_error e \<and> files w (filePath h) = Some f \<longrightarrow>
               fst (LoadJSON J e h w True) =
                 (case unmarshal_map J (content f) of
                    Inl err \<Rightarrow> Inl ErrInvalidJSON
                  | Inr jsonData \<Rightarrow> Inr jsonData)))) \<and>
   (SaveJSON J e h w (Some doc) indent = (None, h', w') \<and> \<not> stat_error e \<and>
    temp_path e \<noteq> filePath h \<and> \<not> stat_error e' \<longrightarrow>
      cachedData h' = Some doc \<and>
      (\<exists>text. encode_indent J (Some doc) (getIndentString indent) = Some text \<and>
         files w' (filePath h) = Some \<lparr>content = text, modTime = fileMTime h'\<rparr>) \<and>
      LoadJSON J e' h' w' True = (Inr (Some doc), h', w') \<and>
      (\<forall>w'' f'. files w'' (filePath h) = Some f' \<and> modTime f' \<noteq> fileMTime h' \<and>
         \<not> read_error e' \<longrightarrow>
           reads (snd (snd (LoadJSON J e' h' w'' True))) = reads w'' + 1 \<and>
           fst (LoadJSON J e' h' w'' True) =
             (case unmarshal_map J (content f') of
                Inl err \<Rightarrow> Inl ErrInvalidJSON
              | Inr jsonData \<Rightarrow> Inr jsonData)))"
proof (intro conjI impI)
  assume "os_Stat e w (filePath h) = StatInfo sz mt"
  then show "if cachedData h \<noteq> None \<and> fileMTime h = mt
       then LoadJSON J e h w True = (Inr (cachedData h), h, w)
       else reads (snd (snd (LoadJSON J e h w True))) = reads w + 1 \<and>
            (\<not> read_error e \<and> files w (filePath h) = Some f \<longrightarrow>
               fst (LoadJSON J e h w True) =
                 (case unmarshal_map J (content f) of
                    Inl err \<Rightarrow> Inl ErrInvalidJSON
                  | Inr jsonData \<Rightarrow> Inr jsonData))"
    using LoadJSON_hit[of e w h sz mt J] LoadJSON_miss[of e w h sz mt J f] by auto
next
  assume a: "SaveJSON J e h w (Some doc) indent = (None, h', w') \<and> \<not> stat_error e \<and>
    temp_path e \<noteq> filePath h \<and> \<not> stat_error e'"
  from a SaveJSON_success[of J e h w "Some doc" indent h' w']
  obtain enc where s: "cachedData h' = Some doc" "filePath h' = filePath h"
    "encode_indent J (Some doc) (getIndentString indent) = Some enc"
    "files w' (filePath h) = Some \<lparr>content = enc, modTime = fileMTime h'\<rparr>"
    by auto
  show "cachedData h' = Some doc" by (rule s)
  show "\<exists>text. encode_indent J (Some doc) (getIndentString indent) = Some text \<and>
         files w' (filePath h) = Some \<lparr>content = text, modTime = fileMTime h'\<rparr>"
    using s by auto
  from a s have st: "os_Stat e' w' (filePath h') = StatInfo (length enc) (fileMTime h')"
    by (simp add: os_Stat_def)
  show "LoadJSON J e' h' w' True = (Inr (Some doc), h', w')"
    using LoadJSON_hit[OF st, of J] s by simp
  show "\<forall>w'' f'. files w'' (filePath h) = Some f' \<and> modTime f' \<noteq> fileMTime h' \<and>
         \<not> read_error e' \<longrightarrow>
           reads (snd (snd (LoadJSON J e' h' w'' True))) = reads w'' + 1 \<and>
           fst (LoadJSON J e' h' w'' True) =
             (case unmarshal_map J (content f') of
                Inl err \<Rightarrow> Inl ErrInvalidJSON
              | Inr jsonData \<Rightarrow> Inr jsonData)"
  proof (intro allI impI)
    fix w'' :: world and f' :: disk_file
    assume b: "files w'' (filePath h) = Some f' \<and> modTime f' \<noteq> fileMTime h' \<and> \<not> read_error e'"
    with a s have st': "os_Stat e' w'' (filePath h') = StatInfo (length (content f')) (modTime f')"
      by (simp add: os_Stat_def)
    from LoadJSON_miss[OF st', of J f'] b s
    show "reads (snd (snd (LoadJSON J e' h' w'' True))) = reads w'' + 1 \<and>
           fst (LoadJSON J e' h' w'' True) =
             (case unmarshal_map J (content f') of
                Inl err \<Rightarrow> Inl ErrInvalidJSON
              | Inr jsonData \<Rightarrow> Inr jsonData)"
      by auto
  qed
qed

theorem C8_witness:
  "LoadJSON example_codec no_faults
     \<lparr>filePath = ''/data/doc.json'', cachedData = Some [(''b'', JNumber 1)], fileMTime = 9\<rparr>
     \<lparr>files = [''/data/doc.json'' \<mapsto> \<lparr>content = ''{\"b\":1}'', modTime = 9\<rparr>], reads = 0\<rparr> True =
   (Inr (Some [(''b'', JNumber 1)]),
    \<lparr>filePath = ''/data/doc.json'', cachedData = Some [(''b'', JNumber 1)], fileMTime = 9\<rparr>,
    \<lparr>files = [''/data/doc.json'' \<mapsto> \<lparr>content = ''{\"b\":1}'', modTime = 9\<rparr>], reads = 0\<rparr>) \<and>
   reads (snd (snd (LoadJSON example_codec no_faults
     \<lparr>filePath = ''/data/doc.json'', cachedData = Some [(''b'', JNumber 1)], fileMTime = 9\<rparr>
     (disk ''{\"a\":1}'') True))) = 1 \<and>
   fst (LoadJSON example_codec no_faults
     \<lparr>filePath = ''/data/doc.json'', cachedData = Some [(''b'', JNumber 1)], fileMTime = 9\<rparr>
     (disk ''{\"a\":1}'') True) = Inr (Some [(''a'', JNumber 1)])"
proof -
  let ?h = "\<lparr>filePath = ''/data/doc.json'', cachedData = Some [(''b'', JNumber 1)], fileMTime = 9\<rparr>"
  let ?w = "\<lparr>files = [''/data/doc.json'' \<mapsto> \<lparr>content = ''{\"b\":1}'', modTime = 9\<rparr>], reads = 0\<rparr>"
  have saved: "SaveJSON example_codec no_faults (NewJSONHandler ''/data/doc.json'')
      (disk ''{\"a\":1}'') (Some [(''b'', JNumber 1)]) 2 = (None, ?h, ?w) \<and>
      \<not> stat_error no_faults \<and> temp_path no_faults \<noteq> filePath (NewJSONHandler ''/data/doc.json'') \<and>
      \<not> stat_error no_faults"
    by (simp add: save_example) (simp add: no_faults_def NewJSONHandler_def)
  have after: "cachedData ?h = Some [(''b'', JNumber 1)] \<and>
      (\<exists>enc. encode_indent example_codec (Some [(''b'', JNumber 1)]) (getIndentString 2) = Some enc \<and>
         files ?w (filePath (NewJSONHandler ''/data/doc.json'')) =
           Some \<lparr>content = enc, modTime = fileMTime ?h\<rparr>) \<and>
      LoadJSON example_codec no_faults ?h ?w True = (Inr (Some [(''b'', JNumber 1)]), ?h, ?w) \<and>
      (\<forall>w'' f'. files w'' (filePath (NewJSONHandler ''/data/doc.json'')) = Some f' \<and>
         modTime f' \<noteq> fileMTime ?h \<and> \<not> read_error no_faults \<longrightarrow>
           reads (snd (snd (LoadJSON example_codec no_faults ?h w'' True))) = reads w'' + 1 \<and>
           fst (LoadJSON example_codec no_faults ?h w'' True) =
             (case unmarshal_map example_codec (content f') of
                Inl err \<Rightarrow> Inl ErrInvalidJSON
              | Inr jsonData \<Rightarrow> Inr jsonData))"
    using C8_cache_by_modification_time[THEN conjunct2, rule_format, OF saved] .
  then have changed: "files w'' (filePath (NewJSONHandler ''/data/doc.json'')) = Some f' \<and>
         modTime f' \<noteq> fileMTime ?h \<and> \<not> read_error no_faults \<longrightarrow>
           reads (snd (snd (LoadJSON example_codec no_faults ?h w'' True))) = reads w'' + 1 \<and>
           fst (LoadJSON example_codec no_faults ?h w'' True) =
             (case unmarshal_map example_codec (content f') of
                Inl err \<Rightarrow> Inl ErrInvalidJSON
              | Inr jsonData \<Rightarrow> Inr jsonData)" for w'' f'
    by blast
  have "reads (snd (snd (LoadJSON example_codec no_faults ?h (disk ''{\"a\":1}'') True))) = 1 \<and>
        fst (LoadJSON example_codec no_faults ?h (disk ''{\"a\":1}'') True) = Inr (Some [(''a'', JNumber 1)])"
    using changed[of "disk ''{\"a\":1}''" "\<lparr>content = ''{\"a\":1}'', modTime = 4\<rparr>"]
    by (simp add: disk_def no_faults_def NewJSONHandler_def example_codec_def example_texts_def)
  with after show ?thesis by blast
qed

text \<open>
  C2 at a failing input. The document \<^verbatim>\<open>{"a.b":1}\<close> holds the key \<open>a.b\<close> at its root: the
  existence check answers true and \<^verbatim>\<open>GetKey\<close> returns 1. \<^verbatim>\<open>UpdateKey\<close> on that path
  fails with KEY_NOT_FOUND and writes nothing: \<^verbatim>\<open>SetValueAtPath\<close> without creation goes
  through \<^verbatim>\<open>NavigateToParent\<close>, which splits the path and looks for the parent \<open>a\<close>, where
  the lookup, the existence check and the removal try the whole string first.
\<close>

theorem C2_update_of_literal_key:
  "fst (KeyExists_op example_codec no_faults (disk ''{\"a.b\":1}'') ''/data/doc.json'' ''a.b'')
     = Inr True \<and>
   fst (GetKey example_codec no_faults (disk ''{\"a.b\":1}'') ''/data/doc.json'' ''a.b'')
     = Inr (JNumber 1) \<and>
   fst (UpdateKey example_codec no_faults (disk ''{\"a.b\":1}'') ''/data/doc.json'' ''a.b'' (JNumber 2))
     = Some (KEY_NOT_FOUND ''a.b'' ''/data/doc.json'') \<and>
   files (snd (UpdateKey example_codec no_faults (disk ''{\"a.b\":1}'') ''/data/doc.json'' ''a.b''
     (JNumber 2))) = files (disk ''{\"a.b\":1}'')"
proof -
  have k: "KeyExists (JObject [(''a.b'', JNumber 1)]) ''a.b''"
    by (simp add: KeyExists_def ValidatePath_def)
  have s: "SetValueAtPath (Some [(''a.b'', JNumber 1)]) ''a.b'' (JNumber 2) False =
             Inl (ErrKeyNotFound ''a'')"
    by (simp add: SetValueAtPath_def NavigateToParent_def NavigateToKey_def ValidatePath_def
        SplitPath_def iface_def entries_def Let_def)
  show ?thesis
    by (simp add: KeyExists_op_def GetKey_def UpdateKey_def load_example example_texts_def
        iface_def entries_def k s ValidatePath_def NavigateToKey_def)
qed

section \<open>Renaming: creation and removal commute\<close>

lemma walk_append:
  "walk x (ks @ [k]) =
     (case walk x ks of
        None \<Rightarrow> None
      | Some y \<Rightarrow> (case as_map y of None \<Rightarrow> None | Some ym \<Rightarrow> map_of ym k))"
  by (induction ks arbitrary: x) (auto split: option.splits)

lemma modify_at_delete:
  "modify_at P (AList.delete k) m = delete_at (P @ [k]) m"
proof (induction P arbitrary: m)
  case Nil
  then show ?case by simp
next
  case (Cons a P)
  then show ?case by (cases "P @ [k]") (auto split: option.splits json.splits)
qed

lemma walk_key_place_object:
  "walk (JObject m) (a # As) = Some v \<Longrightarrow> \<exists>c. map_of m a = Some c \<and> walk c As = Some v"
  by (auto split: option.splits)


text \<open>
  Creating along the segments \<open>N\<close> and deleting the entry at the place \<open>A\<close> commute,
  when the entry at \<open>A\<close> is there, nothing is at \<open>N\<close>, and \<open>A\<close> is not a prefix of
  \<open>N\<close>: the two edits then meet at most in a map they both pass through.
\<close>

lemma update_update_swap:
  "map_of m a \<noteq> None \<Longrightarrow> a \<noteq> k \<Longrightarrow>
   AList.update k y (AList.update a x m) = AList.update a x (AList.update k y m)"
  by (induction m) auto

lemma map_of_delete_at_other:
  "k \<noteq> a \<Longrightarrow> map_of (delete_at (a # As) m) k = map_of m k"
  by (cases As) (auto simp: update_conv' split: option.splits json.splits)

lemma update_delete_at_swap:
  "a \<noteq> k \<Longrightarrow> map_of m a \<noteq> None \<Longrightarrow>
   AList.update k y (delete_at (a # As) m) = delete_at (a # As) (AList.update k y m)"
  by (cases As)
    (auto simp: delete_update update_conv' update_update_swap split: option.splits json.splits)

lemma create_set_delete_at:
  "walk (JObject m) A \<noteq> None \<Longrightarrow> A \<noteq> [] \<Longrightarrow> walk (JObject m) N = None \<Longrightarrow>
   \<not> prefix A N \<Longrightarrow>
   create_set K i (delete_at A m) N v = map_sum id (delete_at A) (create_set K i m N v)"
proof (induction K i m N v arbitrary: A rule: create_set.induct)
  case (1 keys i current v)
  then show ?case by simp
next
  case (2 keys i current key v)
  then obtain a As where A: "A = a # As" by (cases A) auto
  from 2 A have "map_of current key = None" "map_of current a \<noteq> None"
    by (auto split: option.splits)
  then have "a \<noteq> key" by auto
  with \<open>map_of current a \<noteq> None\<close> show ?case
    by (simp add: A update_delete_at_swap)
next
  case (3 keys i current key r rest v)
  then obtain a As where A: "A = a # As" by (cases A) auto
  from 3 A obtain ca where ca: "map_of current a = Some ca" "walk ca As \<noteq> None"
    by (auto split: option.splits)
  show ?case
  proof (cases "a = key")
    case False
    then have same: "map_of (delete_at (a # As) current) key = map_of current key"
      by (simp add: map_of_delete_at_other)
    have swap: "AList.update key y (delete_at (a # As) current) =
                delete_at (a # As) (AList.update key y current)" for y
      using False ca by (simp add: update_delete_at_swap)
    show ?thesis
      unfolding A create_set.simps same
      by (auto simp: swap split: option.splits sum.splits)
  next
    case True
    with 3 A have As: "As \<noteq> []" by auto
    then obtain b Bs where Bs: "As = b # Bs" by (cases As) auto
    from ca As obtain cm where cm: "ca = JObject cm" by (cases ca) (auto simp: Bs)
    from 3 A True ca cm have wN: "walk (JObject cm) (r # rest) = None" by simp
    from 3 A True have np: "\<not> prefix As (r # rest)" by simp
    from ca cm have wA: "walk (JObject cm) As \<noteq> None" by simp
    have m1: "map_of current key = Some ca" using ca True by simp
    have m2: "as_map ca = Some cm" using cm by simp
    have IH: "create_set keys (i + 1) (delete_at As cm) (r # rest) v =
              map_sum id (delete_at As) (create_set keys (i + 1) cm (r # rest) v)"
      by (rule "3.IH"(2)[OF m1 m2 wA As wN np])
    show ?thesis
      unfolding A True
      using ca cm True IH
      by (auto simp: Bs update_conv' split: sum.splits)
  qed
qed


text \<open>
  The two mutations in the terms of the comparison: \<^verbatim>\<open>SetValueAtPath\<close> with creation is
  \<open>create_set\<close> over the segments, and \<^verbatim>\<open>RemoveKeyAtPath\<close> succeeds exactly when the
  entry at \<open>removal_place\<close> is there (and the parent path, where it is used, is not
  empty), returning that entry and deleting it.
\<close>

lemma create_set_Cons:
  "rest \<noteq> [] \<Longrightarrow>
   create_set keys i current (key # rest) v =
     (case map_of current key of
        Some c \<Rightarrow>
          (case as_map c of
             Some valueMap \<Rightarrow>
               (case create_set keys (i + 1) valueMap rest v of
                  Inl err \<Rightarrow> Inl err
                | Inr valueMap' \<Rightarrow> Inr (AList.update key (JObject valueMap') current))
           | None \<Rightarrow> Inl (ErrPathConflict (join_dot (take (i + 1) keys))))
      | None \<Rightarrow>
          (case create_set keys (i + 1) [] rest v of
             Inl err \<Rightarrow> Inl err
           | Inr newMap \<Rightarrow> Inr (AList.update key (JObject newMap) current)))"
  by (cases rest) auto

lemma create_loop_create_set:
  "(case create_loop K i m init of
      Inl err \<Rightarrow> Inl err
    | Inr (m', place) \<Rightarrow> Inr (modify_at place (AList.update k v) m')) =
   create_set K i m (init @ [k]) v"
proof (induction init arbitrary: m i)
  case Nil
  then show ?case by simp
next
  case (Cons a init)
  show ?case
    by (auto simp: create_set_Cons Cons.IH[symmetric] update_conv'
        split: option.splits sum.splits prod.splits)
qed

lemma SetValueAtPath_create:
  "p \<noteq> [] \<Longrightarrow>
   SetValueAtPath (Some m) p v True =
     map_sum id Some (create_set (SplitPath p) 0 m (SplitPath p) v)"
proof -
  assume p: "p \<noteq> []"
  then have ne: "SplitPath p \<noteq> []" by (rule SplitPath_nonempty)
  show ?thesis
  proof (cases "length (SplitPath p) = 1")
    case True
    then obtain k where k: "SplitPath p = [k]" by (cases "SplitPath p") auto
    with p show ?thesis
      by (simp add: SetValueAtPath_def CreateNestedPath_def ValidatePath_def assign_entry_def)
  next
    case False
    from ne have bl: "butlast (SplitPath p) @ [last (SplitPath p)] = SplitPath p" by simp
    have cs: "create_set (SplitPath p) 0 m (SplitPath p) v =
        (case create_loop (SplitPath p) 0 m (butlast (SplitPath p)) of
           Inl err \<Rightarrow> Inl err
         | Inr (m', place) \<Rightarrow> Inr (modify_at place (AList.update (last (SplitPath p)) v) m'))"
      using create_loop_create_set[where K = "SplitPath p" and i = 0 and m = m
        and init = "butlast (SplitPath p)" and k = "last (SplitPath p)" and v = v]
      by (simp add: bl)
    from p False show ?thesis
      by (simp add: SetValueAtPath_def CreateNestedPath_def ValidatePath_def assign_entry_def
          Let_def cs split: sum.splits prod.splits)
  qed
qed

lemma RemoveKeyAtPath_Inr:
  "(RemoveKeyAtPath (Some m) p = Inr (v, d)) =
   (p \<noteq> [] \<and>
    (map_of m p \<noteq> None \<or> length (SplitPath p) = 1 \<or> join_dot (butlast (SplitPath p)) \<noteq> []) \<and>
    walk (JObject m) (removal_place m p) = Some v \<and>
    d = Some (delete_at (removal_place m p) m))"
proof (cases "p = []")
  case True
  then show ?thesis by (simp add: RemoveKeyAtPath_def ValidatePath_def)
next
  case p: False
  show ?thesis
  proof (cases "map_of m p")
    case (Some x)
    with p show ?thesis
      by (auto simp: RemoveKeyAtPath_def ValidatePath_def entries_def removal_place_def)
  next
    case None
    show ?thesis
    proof (cases "length (SplitPath p) = 1")
      case True
      then obtain k where k: "SplitPath p = [k]" by (cases "SplitPath p") auto
      with p None show ?thesis
        by (auto simp: RemoveKeyAtPath_def ValidatePath_def entries_def removal_place_def
            NavigateToParent_def iface_def Let_def split: option.splits)
    next
      case False
      let ?pp = "join_dot (butlast (SplitPath p))"
      show ?thesis
      proof (cases "NavigateToKey (JObject m) ?pp")
        case (Inl err)
        then have "\<not> (?pp \<noteq> [] \<and> (\<exists>x. walk (JObject m) (key_place m ?pp) = Some x))"
          using NavigateToKey_Inr[of m ?pp] by auto
        with p None False Inl show ?thesis
          by (auto simp: RemoveKeyAtPath_def ValidatePath_def entries_def removal_place_def
              NavigateToParent_def iface_def Let_def walk_append split: option.splits)
      next
        case (Inr parent)
        then have pp: "?pp \<noteq> []" "walk (JObject m) (key_place m ?pp) = Some parent"
          using NavigateToKey_Inr[of m ?pp parent] by auto
        with p None False Inr show ?thesis
          by (auto simp: RemoveKeyAtPath_def ValidatePath_def entries_def removal_place_def
              NavigateToParent_def iface_def Let_def walk_append modify_at_delete
              split: option.splits)
      qed
    qed
  qed
qed


text \<open>
  Segments hold no dot, so a key that \<open>create_set\<close> adds to the root cannot be a dotted
  key: what the removal looks up at the root (the old path as a whole, or its parent path
  as a whole) is found after the creation exactly when it was found before.
\<close>

lemma split_on_segments: "k \<in> set (split_on c s) \<Longrightarrow> c \<notin> set k"
  by (induction s arbitrary: k) (auto split: if_splits list.splits)

lemma SplitPath_segments: "k \<in> set (SplitPath p) \<Longrightarrow> CHR ''.'' \<notin> set k"
  by (auto simp: SplitPath_def dest: split_on_segments split: if_splits)

lemma SplitPath_no_dot: "p \<noteq> [] \<Longrightarrow> CHR ''.'' \<notin> set p \<Longrightarrow> SplitPath p = [p]"
  by (simp add: SplitPath_def split_on_no_sep)

lemma join_dot_no_dot:
  "CHR ''.'' \<notin> set (join_dot ks) \<Longrightarrow> ks \<noteq> [] \<Longrightarrow> ks = [join_dot ks]"
  by (induction ks rule: join_dot.induct) auto

lemma split_on_join_dot:
  "ks \<noteq> [] \<Longrightarrow> \<forall>k\<in>set ks. CHR ''.'' \<notin> set k \<Longrightarrow> split_on CHR ''.'' (join_dot ks) = ks"
  by (induction ks rule: join_dot.induct) (auto simp: split_on_no_sep split_on_append)

lemma create_set_root:
  "create_set K i m (k # Ns) v = Inr m1 \<Longrightarrow> \<exists>x. m1 = AList.update k x m"
  by (cases Ns) (auto split: option.splits sum.splits)

lemma create_set_walk_other:
  "create_set K i m N v = Inr m1 \<Longrightarrow> walk (JObject m) A \<noteq> None \<Longrightarrow>
   walk (JObject m) N = None \<Longrightarrow> N \<noteq> [] \<Longrightarrow> \<not> prefix A N \<Longrightarrow>
   walk (JObject m1) A = walk (JObject m) A"
proof (induction K i m N v arbitrary: A m1 rule: create_set.induct)
  case (1 keys i current v)
  then show ?case by simp
next
  case (2 keys i current key v)
  then show ?case
    by (cases A) (auto simp: update_conv' split: option.splits if_splits)
next
  case (3 keys i current key r rest v)
  show ?case
  proof (cases A)
    case Nil
    with 3 show ?thesis by simp
  next
    case (Cons a As)
    show ?thesis
    proof (cases "a = key")
      case False
      from create_set_root[OF "3.prems"(1)] obtain x where "m1 = AList.update key x current"
        by auto
      with False Cons show ?thesis by (simp add: update_conv')
    next
      case True
      from "3.prems" Cons True obtain ca where ca: "map_of current key = Some ca"
        "walk ca As \<noteq> None"
        by (auto split: option.splits)
      from "3.prems" Cons True have As: "As \<noteq> []" by auto
      then obtain b Bs where Bs: "As = b # Bs" by (cases As) auto
      from ca obtain cm where cm: "ca = JObject cm" by (cases ca) (auto simp: Bs)
      from "3.prems"(1) ca cm obtain cm' where
        cm': "create_set keys (i + 1) cm (r # rest) v = Inr cm'"
        "m1 = AList.update key (JObject cm') current"
        by (auto split: sum.splits)
      have m2: "as_map ca = Some cm" using cm by simp
      from "3.prems" Cons True ca cm
      have "walk (JObject cm') As = walk (JObject cm) As"
        by (intro "3.IH"(2)[OF ca(1) m2 cm'(1)]) auto
      with cm' ca cm Cons True show ?thesis by (simp add: update_conv')
    qed
  qed
qed

text \<open>Deleting creates nothing: a path that did not exist does not exist afterwards.\<close>

lemma map_of_delete_at_None:
  "map_of m k = None \<Longrightarrow> map_of (delete_at A m) k = None"
  by (induction A m rule: delete_at.induct)
    (auto simp: update_conv' delete_conv' split: option.splits json.splits)

lemma walk_delete_at:
  "walk (JObject (delete_at A m)) N = Some x \<Longrightarrow> walk (JObject m) N \<noteq> None"
proof (induction N arbitrary: A m x)
  case Nil
  then show ?case by simp
next
  case (Cons k N)
  show ?case
  proof (cases A)
    case Nil
    with Cons.prems show ?thesis by auto
  next
    case A: (Cons a As)
    show ?thesis
    proof (cases As)
      case Nil
      with A Cons.prems show ?thesis
        by (cases "k = a") (auto simp: delete_conv' split: option.splits)
    next
      case As: (Cons b Bs)
      show ?thesis
      proof (cases "map_of m a")
        case None
        with A As Cons.prems show ?thesis by auto
      next
        case (Some ca)
        show ?thesis
        proof (cases ca)
          case (JObject cm)
          show ?thesis
          proof (cases "k = a")
            case True
            with A As Some JObject Cons.prems
            have "walk (JObject (delete_at As cm)) N = Some x"
              by (auto simp: update_conv')
            from Cons.IH[OF this] True Some JObject show ?thesis by simp
          next
            case False
            with A As Some JObject Cons.prems show ?thesis
              by (auto simp: update_conv' split: option.splits)
          qed
        qed (use A As Some Cons.prems in auto)
      qed
    qed
  qed
qed

lemma KeyExists_delete_at:
  "\<not> KeyExists (JObject m) p \<Longrightarrow> \<not> KeyExists (JObject (delete_at A m)) p"
proof (cases "p = []")
  case True
  then show ?thesis by (simp add: KeyExists_walk)
next
  case False
  assume "\<not> KeyExists (JObject m) p"
  with False have n: "map_of m p = None" "walk (JObject m) (SplitPath p) = None"
    by (auto simp: KeyExists_walk key_place_def split: if_splits)
  then have "map_of (delete_at A m) p = None" by (simp add: map_of_delete_at_None)
  moreover have "walk (JObject (delete_at A m)) (SplitPath p) = None"
    using walk_delete_at[of A m "SplitPath p"] n by (cases "walk (JObject (delete_at A m)) (SplitPath p)") auto
  ultimately show ?thesis by (simp add: KeyExists_walk key_place_def)
qed


lemma removal_place_nonempty: "p \<noteq> [] \<Longrightarrow> removal_place m p \<noteq> []"
  by (auto simp: removal_place_def dest: SplitPath_nonempty)

lemma KeyExists_literal_or_split:
  "KeyExists (JObject m) p \<Longrightarrow> map_of m p = None \<Longrightarrow> walk (JObject m) (SplitPath p) \<noteq> None"
  by (auto simp: KeyExists_walk key_place_def)

lemma KeyExists_first_segment:
  assumes "KeyExists (JObject m) p" and "map_of m p = None"
  shows "map_of m (hd (SplitPath p)) \<noteq> None"
proof -
  from assms have p: "p \<noteq> []" by (simp add: KeyExists_walk)
  then obtain k ks where ks: "SplitPath p = k # ks"
    using SplitPath_nonempty[OF p] by (cases "SplitPath p") auto
  from KeyExists_literal_or_split[OF assms] ks show ?thesis
    by (auto split: option.splits)
qed

lemma removal_after_create:
  assumes ex: "KeyExists (JObject m) old"
    and cs: "create_set K i m (SplitPath new) v = Inr m1"
    and new: "new \<noteq> []"
  shows "(map_of m1 old \<noteq> None) = (map_of m old \<noteq> None)"
    and "removal_place m1 old = removal_place m old"
proof -
  from ex have old: "old \<noteq> []" by (simp add: KeyExists_walk)
  obtain k Ns where N: "SplitPath new = k # Ns"
    using SplitPath_nonempty[OF new] by (cases "SplitPath new") auto
  then have k: "CHR ''.'' \<notin> set k" using SplitPath_segments[of k new] by simp
  from create_set_root[of K i m k Ns v m1] cs N obtain x where m1: "m1 = AList.update k x m"
    by auto
  have lit: "map_of m q \<noteq> None" if "q = k" "q = old \<or> (map_of m old = None \<and>
      length (SplitPath old) \<noteq> 1 \<and> q = join_dot (butlast (SplitPath old)))" for q
  proof -
    from that(2) show ?thesis
    proof
      assume "q = old"
      with that k old have "SplitPath old = [old]" by (simp add: SplitPath_no_dot)
      with ex \<open>q = old\<close> show ?thesis
        by (auto simp: KeyExists_walk key_place_def split: if_splits option.splits)
    next
      assume a: "map_of m old = None \<and> length (SplitPath old) \<noteq> 1 \<and>
        q = join_dot (butlast (SplitPath old))"
      from old have "SplitPath old \<noteq> []" by (rule SplitPath_nonempty)
      with a have bl: "butlast (SplitPath old) \<noteq> []"
        by (cases "SplitPath old") (auto split: if_splits)
      from a that k have "CHR ''.'' \<notin> set (join_dot (butlast (SplitPath old)))" by simp
      from join_dot_no_dot[OF this bl] a have "butlast (SplitPath old) = [q]" by simp
      then have "hd (SplitPath old) = q"
        by (cases "SplitPath old") (auto split: if_splits)
      with KeyExists_first_segment[OF ex] a show ?thesis by simp
    qed
  qed
  show one: "(map_of m1 old \<noteq> None) = (map_of m old \<noteq> None)"
    using lit[of old] by (auto simp: m1 update_conv')
  have "(map_of m1 (join_dot (butlast (SplitPath old))) \<noteq> None) =
        (map_of m (join_dot (butlast (SplitPath old))) \<noteq> None)"
    if "map_of m old = None" "length (SplitPath old) \<noteq> 1"
    using lit[of "join_dot (butlast (SplitPath old))"] that by (auto simp: m1 update_conv')
  with one show "removal_place m1 old = removal_place m old"
    by (auto simp: removal_place_def key_place_def)
qed

lemma removal_place_cases:
  assumes ex: "KeyExists (JObject m) old"
    and ok: "map_of m old \<noteq> None \<or> length (SplitPath old) = 1 \<or>
             join_dot (butlast (SplitPath old)) \<noteq> []"
  shows "walk (JObject m) (removal_place m old) \<noteq> None \<or>
         (\<exists>a As. removal_place m old = a # As \<and> CHR ''.'' \<in> set a)"
proof (cases "map_of m old")
  case (Some x)
  then show ?thesis by (simp add: removal_place_def)
next
  case None
  note w = KeyExists_literal_or_split[OF ex None]
  from ex have old: "old \<noteq> []" by (simp add: KeyExists_walk)
  then have ne: "SplitPath old \<noteq> []" by (rule SplitPath_nonempty)
  show ?thesis
  proof (cases "length (SplitPath old) = 1")
    case True
    with None w show ?thesis by (simp add: removal_place_def)
  next
    case False
    with ok None have pp: "join_dot (butlast (SplitPath old)) \<noteq> []" by simp
    from ne False have bl: "butlast (SplitPath old) \<noteq> []"
      by (cases "SplitPath old") (auto split: if_splits)
    have seg: "\<forall>k\<in>set (butlast (SplitPath old)). CHR ''.'' \<notin> set k"
      using SplitPath_segments[of _ old] by (auto dest: in_set_butlastD)
    let ?pp = "join_dot (butlast (SplitPath old))"
    have keys: "butlast (SplitPath old) @ [last (SplitPath old)] = SplitPath old"
      using ne by simp
    show ?thesis
    proof (cases "map_of m ?pp \<noteq> None \<and> CHR ''.'' \<in> set ?pp")
      case True
      with None False show ?thesis by (simp add: removal_place_def key_place_def)
    next
      case nd: False
      have "key_place m ?pp = butlast (SplitPath old)"
      proof (cases "map_of m ?pp \<noteq> None")
        case True
        with nd have "CHR ''.'' \<notin> set ?pp" by simp
        from join_dot_no_dot[OF this bl] True show ?thesis by (simp add: key_place_def)
      next
        case False
        with pp split_on_join_dot[OF bl seg] show ?thesis
          by (simp add: key_place_def SplitPath_def)
      qed
      with None False keys w show ?thesis by (simp add: removal_place_def)
    qed
  qed
qed

text \<open>
  The edit of \<^verbatim>\<open>RenameKey\<close> (store at the new path, then remove the old one) against the
  edits of the sequence (remove the old path, check the new one, store at it), each as the
  document it ends with, or \<open>None\<close> where a step fails.
\<close>

lemma SetValueAtPath_empty: "SetValueAtPath d [] v True = Inl ErrInvalidPath"
  by (simp add: SetValueAtPath_def CreateNestedPath_def ValidatePath_def)

lemma rename_edit_eq:
  assumes ex: "KeyExists (JObject m) old" and nex: "\<not> KeyExists (JObject m) new"
    and sep: "\<not> prefix (removal_place m old) (SplitPath new)"
  shows "(case SetValueAtPath (Some m) new v True of
            Inl err \<Rightarrow> None
          | Inr d1 \<Rightarrow> (case RemoveKeyAtPath d1 old of Inl err \<Rightarrow> None | Inr (x, d2) \<Rightarrow> Some d2)) =
         (case RemoveKeyAtPath (Some m) old of
            Inl err \<Rightarrow> None
          | Inr (x, d1) \<Rightarrow>
              if KeyExists (iface d1) new then None
              else (case SetValueAtPath d1 new v True of Inl err \<Rightarrow> None | Inr d2 \<Rightarrow> Some d2))"
proof (cases "new = []")
  case True
  then show ?thesis
    by (auto simp: SetValueAtPath_empty KeyExists_def ValidatePath_def iface_def
        split: sum.splits prod.splits)
next
  case new: False
  let ?N = "SplitPath new"
  let ?A = "removal_place m old"
  let ?ok = "\<lambda>m. map_of m old \<noteq> None \<or> length (SplitPath old) = 1 \<or>
                  join_dot (butlast (SplitPath old)) \<noteq> []"
  from ex have old: "old \<noteq> []" by (simp add: KeyExists_walk)
  from new have N: "?N \<noteq> []" by (rule SplitPath_nonempty)
  from nex new have wN: "walk (JObject m) ?N = None"
    by (auto simp: KeyExists_walk key_place_def split: if_splits)
  have set_m: "SetValueAtPath (Some m) new v True = map_sum id Some (create_set ?N 0 m ?N v)"
    using new by (rule SetValueAtPath_create)
  have A: "?A \<noteq> []" using old by (rule removal_place_nonempty)
  show ?thesis
  proof (cases "?ok m \<and> walk (JObject m) ?A \<noteq> None")
    case True
    then obtain x where x: "walk (JObject m) ?A = Some x" by auto
    with True old have rm: "RemoveKeyAtPath (Some m) old = Inr (x, Some (delete_at ?A m))"
      by (simp add: RemoveKeyAtPath_Inr)
    have nex': "\<not> KeyExists (iface (Some (delete_at ?A m))) new"
      using KeyExists_delete_at[OF nex] by (simp add: iface_def entries_def)
    have comm: "create_set ?N 0 (delete_at ?A m) ?N v =
                map_sum id (delete_at ?A) (create_set ?N 0 m ?N v)"
      using True A wN sep by (intro create_set_delete_at) auto
    have set_d: "SetValueAtPath (Some (delete_at ?A m)) new v True =
        map_sum id Some (map_sum id (delete_at ?A) (create_set ?N 0 m ?N v))"
      using SetValueAtPath_create[OF new, of "delete_at ?A m" v] comm by simp
    show ?thesis
    proof (cases "create_set ?N 0 m ?N v")
      case (Inl err)
      with rm nex' set_m set_d show ?thesis by simp
    next
      case (Inr m1)
      have pl: "removal_place m1 old = ?A" and lit: "(map_of m1 old \<noteq> None) = (map_of m old \<noteq> None)"
        using removal_after_create[OF ex Inr new] by auto
      have "walk (JObject m1) ?A = walk (JObject m) ?A"
        using create_set_walk_other[OF Inr _ wN N sep] True by auto
      with x pl lit True old have "RemoveKeyAtPath (Some m1) old = Inr (x, Some (delete_at ?A m1))"
        by (simp add: RemoveKeyAtPath_Inr)
      with Inr rm nex' set_m set_d show ?thesis by simp
    qed
  next
    case False
    then have rm: "\<And>x d. RemoveKeyAtPath (Some m) old \<noteq> Inr (x, d)"
      by (auto simp: RemoveKeyAtPath_Inr)
    then have rhs: "(case RemoveKeyAtPath (Some m) old of
            Inl err \<Rightarrow> None
          | Inr (x, d1) \<Rightarrow>
              if KeyExists (iface d1) new then None
              else (case SetValueAtPath d1 new v True of Inl err \<Rightarrow> None | Inr d2 \<Rightarrow> Some d2)) = None"
      by (auto split: sum.splits)
    show ?thesis
    proof (cases "create_set ?N 0 m ?N v")
      case (Inl err)
      with set_m rhs show ?thesis by simp
    next
      case (Inr m1)
      have pl: "removal_place m1 old = ?A" and lit: "(map_of m1 old \<noteq> None) = (map_of m old \<noteq> None)"
        using removal_after_create[OF ex Inr new] by auto
      have "\<And>x d. RemoveKeyAtPath (Some m1) old \<noteq> Inr (x, d)"
      proof (cases "?ok m")
        case nok: False
        with lit show "\<And>x d. RemoveKeyAtPath (Some m1) old \<noteq> Inr (x, d)"
          by (auto simp: RemoveKeyAtPath_Inr)
      next
        case ok: True
        with False have wA: "walk (JObject m) ?A = None" by auto
        with removal_place_cases[OF ex ok] obtain a As where
          a: "?A = a # As" "CHR ''.'' \<in> set a" by auto
        obtain k Ns where kN: "?N = k # Ns" using N by (cases ?N) auto
        then have "CHR ''.'' \<notin> set k" using SplitPath_segments[of k new] by simp
        with a have "a \<noteq> k" by auto
        moreover from create_set_root[of ?N 0 m k Ns v m1] Inr kN
        obtain y where "m1 = AList.update k y m" by auto
        ultimately have "walk (JObject m1) ?A = walk (JObject m) ?A"
          using a by (simp add: update_conv')
        with wA pl show "\<And>x d. RemoveKeyAtPath (Some m1) old \<noteq> Inr (x, d)"
          by (auto simp: RemoveKeyAtPath_Inr)
      qed
      then have "(case RemoveKeyAtPath (Some m1) old of Inl err \<Rightarrow> None | Inr (x, d2) \<Rightarrow> Some d2)
          = None"
        by (auto split: sum.splits)
      with Inr set_m rhs show ?thesis by simp
    qed
  qed
qed

section \<open>Renaming: the operations\<close>

text \<open>
  A fresh handler always reads the file. With an environment free of faults each operation
  is its edit of the loaded document followed by one save, which writes the encoding of the
  edited document if there is one.
\<close>

lemma LoadJSON_new_ok:
  "files w file = Some f \<Longrightarrow> \<not> stat_error e \<Longrightarrow> \<not> read_error e \<Longrightarrow>
   unmarshal_map J (content f) = Inr d \<Longrightarrow>
   \<exists>h' w'. LoadJSON J e (NewJSONHandler file) w True = (Inr d, h', w') \<and>
           files w' = files w \<and> filePath h' = file"
  by (simp add: LoadJSON_def os_Stat_def os_ReadFile_def NewJSONHandler_def)

lemma LoadJSON_new_Inr:
  "fst (LoadJSON J e (NewJSONHandler file) w True) = Inr d \<Longrightarrow>
   \<exists>f. files w file = Some f \<and> unmarshal_map J (content f) = Inr d"
  by (auto simp: LoadJSON_def os_Stat_def os_ReadFile_def NewJSONHandler_def
      split: option.splits if_splits sum.splits)

lemma SaveJSON_ok:
  "write_error e = None \<Longrightarrow> files w (temp_path e) = None \<Longrightarrow> temp_path e \<noteq> filePath h \<Longrightarrow>
   encode_indent J d (getIndentString i) = Some b \<Longrightarrow>
   \<exists>h' w'. SaveJSON J e h w d i = (None, h', w') \<and>
           files w' = (files w)(filePath h \<mapsto> \<lparr>content = b, modTime = clock e\<rparr>)"
  by (auto simp: SaveJSON_def Let_def os_WriteFile_def os_Remove_def os_Rename_def
      split: stat_result.splits)

lemma SaveJSON_encode_None:
  "encode_indent J d (getIndentString i) = None \<Longrightarrow> fst (SaveJSON J e h w d i) \<noteq> None"
  by (auto simp: SaveJSON_def Let_def)

lemma KeyExists_nil: "\<not> KeyExists (iface None) p"
  using SplitPath_nonempty[of p]
  by (cases "SplitPath p") (auto simp: iface_def entries_def KeyExists_walk key_place_def)

lemma GetKey_run:
  assumes "files w file = Some f" and "unmarshal_map J (content f) = Inr (Some m)"
    and "\<not> stat_error e" and "\<not> read_error e"
    and "NavigateToKey (JObject m) old = Inr v"
  shows "\<exists>w'. GetKey J e w file old = (Inr v, w') \<and> files w' = files w"
  using LoadJSON_new_ok[OF assms(1,3,4,2)] assms(5)
  by (auto simp: GetKey_def iface_def entries_def)

lemma RemoveKey_run:
  assumes "files w file = Some f" and "unmarshal_map J (content f) = Inr (Some m)"
    and "fault_free e w" and "KeyExists (JObject m) old"
  shows "(case RemoveKeyAtPath (Some m) old of
            Inl err \<Rightarrow> isl (fst (RemoveKey J e w file old))
          | Inr (x, d) \<Rightarrow>
              (case encode_indent J d (getIndentString 2) of
                 None \<Rightarrow> isl (fst (RemoveKey J e w file old))
               | Some b \<Rightarrow>
                   fst (RemoveKey J e w file old) = Inr x \<and>
                   files (snd (RemoveKey J e w file old)) =
                     (files w)(file \<mapsto> \<lparr>content = b, modTime = clock e\<rparr>)))"
proof -
  from assms(3) have e: "\<not> stat_error e" "\<not> read_error e" "write_error e = None"
    "files w (temp_path e) = None"
    by (simp_all add: fault_free_def)
  from LoadJSON_new_ok[OF assms(1) e(1,2) assms(2)] obtain h' w' where
    l: "LoadJSON J e (NewJSONHandler file) w True = (Inr (Some m), h', w')"
    "files w' = files w" "filePath h' = file"
    by auto
  from assms(4) have old: "old \<noteq> []" by (simp add: KeyExists_walk)
  from e(4) assms(1) l have tmp: "files w' (temp_path e) = None" "temp_path e \<noteq> filePath h'"
    by auto
  show ?thesis
  proof (cases "RemoveKeyAtPath (Some m) old")
    case (Inl err)
    with l old assms(4) show ?thesis
      by (simp add: RemoveKey_def ValidatePath_def iface_def entries_def)
  next
    case (Inr r)
    obtain x d where r: "r = (x, d)" by (cases r)
    show ?thesis
    proof (cases "encode_indent J d (getIndentString 2)")
      case None
      from SaveJSON_encode_None[OF None, of e h' w'] Inr r l old assms(4) None show ?thesis
        by (auto simp: RemoveKey_def ValidatePath_def iface_def entries_def
            split: prod.splits option.splits)
    next
      case (Some b)
      from SaveJSON_ok[OF e(3) tmp Some] Inr r l old assms(4) Some show ?thesis
        by (auto simp: RemoveKey_def ValidatePath_def iface_def entries_def)
    qed
  qed
qed


lemma AddKey_run:
  fixes m :: obj and new :: string and v :: json
  assumes "files w file = Some f" and "unmarshal_map J (content f) = Inr (Some m)"
    and "fault_free e w"
  defines "T \<equiv> (if KeyExists (JObject m) new then None
                 else (case SetValueAtPath (Some m) new v True of
                         Inl err \<Rightarrow> None
                       | Inr d \<Rightarrow> Some d))"
  shows "(fst (AddKey J e w file new v) = None) =
           (\<exists>d b. T = Some d \<and> encode_indent J d (getIndentString 2) = Some b)"
    and "T = Some d \<Longrightarrow> encode_indent J d (getIndentString 2) = Some b \<Longrightarrow>
         files (snd (AddKey J e w file new v)) =
           (files w)(file \<mapsto> \<lparr>content = b, modTime = clock e\<rparr>)"
proof -
  from assms(3) have e: "\<not> stat_error e" "\<not> read_error e" "write_error e = None"
    "files w (temp_path e) = None"
    by (simp_all add: fault_free_def)
  from LoadJSON_new_ok[OF assms(1) e(1,2) assms(2)] obtain h' w' where
    l: "LoadJSON J e (NewJSONHandler file) w True = (Inr (Some m), h', w')"
    "files w' = files w" "filePath h' = file"
    by auto
  from e(4) assms(1) l have tmp: "files w' (temp_path e) = None" "temp_path e \<noteq> filePath h'"
    by auto
  have "(fst (AddKey J e w file new v) = None) =
           (\<exists>d b. T = Some d \<and> encode_indent J d (getIndentString 2) = Some b) \<and>
        (\<forall>d b. T = Some d \<and> encode_indent J d (getIndentString 2) = Some b \<longrightarrow>
         files (snd (AddKey J e w file new v)) =
           (files w)(file \<mapsto> \<lparr>content = b, modTime = clock e\<rparr>))"
  proof (cases "KeyExists (JObject m) new")
    case True
    with l show ?thesis by (simp add: T_def AddKey_def iface_def entries_def)
  next
    case ne: False
    show ?thesis
    proof (cases "SetValueAtPath (Some m) new v True")
      case (Inl err)
      with l ne show ?thesis
        by (simp add: T_def AddKey_def iface_def entries_def split: path_error.splits)
    next
      case (Inr d)
      with ne have T: "T = Some d" by (simp add: T_def)
      show ?thesis
      proof (cases "encode_indent J d (getIndentString 2)")
        case None
        from SaveJSON_encode_None[OF None, of e h' w'] obtain err h2 w2 where
          "SaveJSON J e h' w' d 2 = (Some err, h2, w2)"
          by (cases "SaveJSON J e h' w' d 2") auto
        with Inr l ne None T show ?thesis
          by (simp add: AddKey_def iface_def entries_def)
      next
        case (Some b)
        from SaveJSON_ok[OF e(3) tmp Some] obtain h2 w2 where
          "SaveJSON J e h' w' d 2 = (None, h2, w2)"
          "files w2 = (files w')(filePath h' \<mapsto> \<lparr>content = b, modTime = clock e\<rparr>)"
          by auto
        with Inr l ne Some T show ?thesis
          by (simp add: AddKey_def iface_def entries_def)
      qed
    qed
  qed
  then show "(fst (AddKey J e w file new v) = None) =
           (\<exists>d b. T = Some d \<and> encode_indent J d (getIndentString 2) = Some b)"
    and "T = Some d \<Longrightarrow> encode_indent J d (getIndentString 2) = Some b \<Longrightarrow>
         files (snd (AddKey J e w file new v)) =
           (files w)(file \<mapsto> \<lparr>content = b, modTime = clock e\<rparr>)"
    by blast+
qed

text \<open>
  A new path whose segments do not begin with the segments of the old path does not lead
  through the map read at the old path, nor through the entry that the removal deletes.
  With such a pair of paths the stored map does not come to contain itself, and the edit of
  \<^verbatim>\<open>RenameKey\<close> and the edits of the sequence end with the same document.
\<close>

lemma not_below_not_stored:
  assumes nb: "\<not> prefix (SplitPath old) (SplitPath new)"
  shows "\<not> stored_below_itself (Some m) old new"
proof
  assume "stored_below_itself (Some m) old new"
  then obtain v where nav: "NavigateToKey (JObject m) old = Inr v"
    and pre: "prefix (key_place m old) (butlast (SplitPath new))"
    by (auto simp: stored_below_itself_def iface_def entries_def split: sum.splits option.splits)
  from nav have old: "old \<noteq> []" by (simp add: NavigateToKey_Inr)
  from pre have pre': "prefix (key_place m old) (SplitPath new)"
    using prefixeq_butlast[of "SplitPath new"] by (rule prefix_order.trans)
  show False
  proof (cases "map_of m old \<noteq> None")
    case True
    with pre' have "old \<in> set (SplitPath new)"
      by (auto simp: key_place_def prefix_def)
    then have "CHR ''.'' \<notin> set old" by (rule SplitPath_segments)
    with old have "SplitPath old = [old]" by (simp add: SplitPath_no_dot)
    with True pre' nb show False by (simp add: key_place_def)
  next
    case False
    with pre' nb show False by (simp add: key_place_def)
  qed
qed

lemma not_below_removal:
  assumes old: "old \<noteq> []"
    and nb: "\<not> prefix (SplitPath old) (SplitPath new)"
    and ok: "map_of m old \<noteq> None \<or> length (SplitPath old) = 1 \<or>
             join_dot (butlast (SplitPath old)) \<noteq> []"
  shows "\<not> prefix (removal_place m old) (SplitPath new)"
proof
  assume pre: "prefix (removal_place m old) (SplitPath new)"
  from old have ne: "SplitPath old \<noteq> []" by (rule SplitPath_nonempty)
  show False
  proof (cases "map_of m old \<noteq> None")
    case True
    with pre have "old \<in> set (SplitPath new)"
      by (auto simp: removal_place_def prefix_def)
    then have "CHR ''.'' \<notin> set old" by (rule SplitPath_segments)
    with old have "SplitPath old = [old]" by (simp add: SplitPath_no_dot)
    with True pre nb show False by (simp add: removal_place_def)
  next
    case lit: False
    show False
    proof (cases "length (SplitPath old) = 1")
      case True
      with lit pre nb show False by (simp add: removal_place_def)
    next
      case False
      let ?pp = "join_dot (butlast (SplitPath old))"
      from ok lit False have pp: "?pp \<noteq> []" by simp
      from ne False have bl: "butlast (SplitPath old) \<noteq> []"
        by (cases "SplitPath old") (auto split: if_splits)
      have seg: "\<forall>k\<in>set (butlast (SplitPath old)). CHR ''.'' \<notin> set k"
        using SplitPath_segments[of _ old] by (auto dest: in_set_butlastD)
      have keys: "butlast (SplitPath old) @ [last (SplitPath old)] = SplitPath old"
        using ne by simp
      have "key_place m ?pp = butlast (SplitPath old)"
      proof (cases "map_of m ?pp \<noteq> None")
        case True
        with lit False pre have "?pp \<in> set (SplitPath new)"
          by (auto simp: removal_place_def key_place_def prefix_def)
        then have "CHR ''.'' \<notin> set ?pp" by (rule SplitPath_segments)
        from join_dot_no_dot[OF this bl] True show ?thesis by (simp add: key_place_def)
      next
        case False
        with pp split_on_join_dot[OF bl seg] show ?thesis
          by (simp add: key_place_def SplitPath_def)
      qed
      with lit False keys have "removal_place m old = SplitPath old"
        by (simp add: removal_place_def)
      with pre nb show False by simp
    qed
  qed
qed

lemma rename_edit_not_below:
  assumes ex: "KeyExists (JObject m) old" and nex: "\<not> KeyExists (JObject m) new"
    and nb: "\<not> prefix (SplitPath old) (SplitPath new)"
  shows "(case SetValueAtPath (Some m) new v True of
            Inl err \<Rightarrow> None
          | Inr d1 \<Rightarrow> (case RemoveKeyAtPath d1 old of Inl err \<Rightarrow> None | Inr (x, d2) \<Rightarrow> Some d2)) =
         (case RemoveKeyAtPath (Some m) old of
            Inl err \<Rightarrow> None
          | Inr (x, d1) \<Rightarrow>
              if KeyExists (iface d1) new then None
              else (case SetValueAtPath d1 new v True of Inl err \<Rightarrow> None | Inr d2 \<Rightarrow> Some d2))"
proof (cases "map_of m old \<noteq> None \<or> length (SplitPath old) = 1 \<or>
             join_dot (butlast (SplitPath old)) \<noteq> []")
  case True
  from ex have "old \<noteq> []" by (simp add: KeyExists_walk)
  from ex nex not_below_removal[OF this nb True] show ?thesis by (rule rename_edit_eq)
next
  case nok: False
  then have rm: "\<And>x d. RemoveKeyAtPath (Some m) old \<noteq> Inr (x, d)"
    by (auto simp: RemoveKeyAtPath_Inr)
  then have rhs: "(case RemoveKeyAtPath (Some m) old of
            Inl err \<Rightarrow> None
          | Inr (x, d1) \<Rightarrow>
              if KeyExists (iface d1) new then None
              else (case SetValueAtPath d1 new v True of Inl err \<Rightarrow> None | Inr d2 \<Rightarrow> Some d2)) = None"
    by (auto split: sum.splits)
  show ?thesis
  proof (cases "new = []")
    case True
    with rhs show ?thesis by (simp add: SetValueAtPath_empty)
  next
    case new: False
    have set_m: "SetValueAtPath (Some m) new v True =
        map_sum id Some (create_set (SplitPath new) 0 m (SplitPath new) v)"
      using new by (rule SetValueAtPath_create)
    show ?thesis
    proof (cases "create_set (SplitPath new) 0 m (SplitPath new) v")
      case (Inl err)
      with set_m rhs show ?thesis by simp
    next
      case (Inr m1)
      from removal_after_create(1)[OF ex Inr new] nok
      have "\<And>x d. RemoveKeyAtPath (Some m1) old \<noteq> Inr (x, d)"
        by (auto simp: RemoveKeyAtPath_Inr)
      then have "(case RemoveKeyAtPath (Some m1) old of
                    Inl err \<Rightarrow> None | Inr (x, d2) \<Rightarrow> Some d2) = None"
        by (auto split: sum.splits)
      with Inr set_m rhs show ?thesis by simp
    qed
  qed
qed

lemma RenameKey_run:
  fixes m :: obj and old new :: string and v :: json
  assumes "files w file = Some f" and "unmarshal_map J (content f) = Inr (Some m)"
    and "fault_free e w"
    and "KeyExists (JObject m) old" and "\<not> KeyExists (JObject m) new"
    and "NavigateToKey (JObject m) old = Inr v"
    and nc: "\<not> stored_below_itself (Some m) old new"
  defines "R \<equiv> (case SetValueAtPath (Some m) new v True of
                   Inl err \<Rightarrow> None
                 | Inr d1 \<Rightarrow>
                     (case RemoveKeyAtPath d1 old of Inl err \<Rightarrow> None | Inr (x, d2) \<Rightarrow> Some d2))"
  shows "(fst (RenameKey J e w file old new) = None) =
           (\<exists>d b. R = Some d \<and> encode_indent J d (getIndentString 2) = Some b)"
    and "R = Some d \<Longrightarrow> encode_indent J d (getIndentString 2) = Some b \<Longrightarrow>
         files (snd (RenameKey J e w file old new)) =
           (files w)(file \<mapsto> \<lparr>content = b, modTime = clock e\<rparr>)"
proof -
  from assms(3) have e: "\<not> stat_error e" "\<not> read_error e" "write_error e = None"
    "files w (temp_path e) = None"
    by (simp_all add: fault_free_def)
  from LoadJSON_new_ok[OF assms(1) e(1,2) assms(2)] obtain h' w' where
    l: "LoadJSON J e (NewJSONHandler file) w True = (Inr (Some m), h', w')"
    "files w' = files w" "filePath h' = file"
    by auto
  from e(4) assms(1) l have tmp: "files w' (temp_path e) = None" "temp_path e \<noteq> filePath h'"
    by auto
  from assms(4) have old: "old \<noteq> []" by (simp add: KeyExists_walk)
  from assms(4,5) have diff: "old \<noteq> new" by auto
  have "(fst (RenameKey J e w file old new) = None) =
           (\<exists>d b. R = Some d \<and> encode_indent J d (getIndentString 2) = Some b) \<and>
        (\<forall>d b. R = Some d \<and> encode_indent J d (getIndentString 2) = Some b \<longrightarrow>
         files (snd (RenameKey J e w file old new)) =
           (files w)(file \<mapsto> \<lparr>content = b, modTime = clock e\<rparr>))"
  proof (cases "new = []")
    case True
    with old diff show ?thesis
      by (simp add: R_def SetValueAtPath_empty RenameKey_def ValidatePath_def)
  next
    case new: False
    show ?thesis
    proof (cases "SetValueAtPath (Some m) new v True")
      case (Inl err)
      with l old new diff assms(4,5,6) show ?thesis
        by (simp add: R_def RenameKey_def ValidatePath_def iface_def entries_def
            split: path_error.splits)
    next
      case (Inr d1)
      show ?thesis
      proof (cases "RemoveKeyAtPath d1 old")
        case (Inl err)
        with Inr l old new diff assms(4,5,6) show ?thesis
          by (simp add: R_def RenameKey_def ValidatePath_def iface_def entries_def)
      next
        case rm: (Inr r)
        obtain x d2 where r: "r = (x, d2)" by (cases r)
        from Inr rm r have R: "R = Some d2" by (simp add: R_def)
        show ?thesis
        proof (cases "encode_indent J d2 (getIndentString 2)")
          case None
          from SaveJSON_encode_None[OF None, of e h' w'] obtain err h2 w2 where
            "SaveJSON J e h' w' d2 2 = (Some err, h2, w2)"
            by (cases "SaveJSON J e h' w' d2 2") auto
          with Inr rm r l old new diff assms(4,5,6) None R nc show ?thesis
            by (simp add: RenameKey_def ValidatePath_def iface_def entries_def)
        next
          case (Some b)
          from SaveJSON_ok[OF e(3) tmp Some] obtain h2 w2 where
            "SaveJSON J e h' w' d2 2 = (None, h2, w2)"
            "files w2 = (files w')(filePath h' \<mapsto> \<lparr>content = b, modTime = clock e\<rparr>)"
            by auto
          with Inr rm r l old new diff assms(4,5,6) Some R nc show ?thesis
            by (simp add: RenameKey_def ValidatePath_def iface_def entries_def)
        qed
      qed
    qed
  qed
  then show "(fst (RenameKey J e w file old new) = None) =
           (\<exists>d b. R = Some d \<and> encode_indent J d (getIndentString 2) = Some b)"
    and "R = Some d \<Longrightarrow> encode_indent J d (getIndentString 2) = Some b \<Longrightarrow>
         files (snd (RenameKey J e w file old new)) =
           (files w)(file \<mapsto> \<lparr>content = b, modTime = clock e\<rparr>)"
    by blast+
qed

text \<open>The definitions a concrete run unfolds.\<close>

lemmas run_defs = LoadJSON_def SaveJSON_def os_Stat_def os_ReadFile_def os_WriteFile_def
  os_Remove_def os_Rename_def NewJSONHandler_def Let_def no_faults_def disk_def
  example_codec_def example_texts_def getIndentString_def

lemmas path_defs = KeyExists_def NavigateToKey_def NavigateToParent_def ValidatePath_def
  SplitPath_def SetValueAtPath_def CreateNestedPath_def RemoveKeyAtPath_def assign_entry_def
  key_place_def iface_def entries_def

lemmas rename_defs = RenameKey_def stored_below_itself_def removal_place_def on_cycle_def

text \<open>
  C5 as the code has it. The claim as stated fails. On \<^verbatim>\<open>{"a":1,"s":5}\<close> the path \<open>a\<close>
  exists and \<open>s.t\<close> does not. \<^verbatim>\<open>RenameKey\<close> from \<open>a\<close> to \<open>s.t\<close> meets the number at \<open>s\<close>,
  fails, and leaves the file as it was; the sequence Get, Remove, Add has by then removed
  \<open>a\<close> and saved, and leaves \<^verbatim>\<open>{"s":5}\<close>.
\<close>

theorem C5_counterexample:
  "KeyExists (JObject [(''a'', JNumber 1), (''s'', JNumber 5)]) ''a'' \<and>
   \<not> KeyExists (JObject [(''a'', JNumber 1), (''s'', JNumber 5)]) ''s.t'' \<and>
   fst (RenameKey example_codec no_faults (disk ''{\"a\":1,\"s\":5}'') ''/data/doc.json'' ''a'' ''s.t'')
     = Some (RENAME_KEY_ERROR (Inl (ErrPathConflict ''s''))) \<and>
   map_option content (files (snd (RenameKey example_codec no_faults (disk ''{\"a\":1,\"s\":5}'')
     ''/data/doc.json'' ''a'' ''s.t'')) ''/data/doc.json'') = Some ''{\"a\":1,\"s\":5}'' \<and>
   fst (GetRemoveAdd example_codec no_faults no_faults no_faults (disk ''{\"a\":1,\"s\":5}'')
     ''/data/doc.json'' ''a'' ''s.t'') = Some (PATH_CONFLICT (ErrPathConflict ''s'')) \<and>
   map_option content (files (snd (GetRemoveAdd example_codec no_faults no_faults no_faults
     (disk ''{\"a\":1,\"s\":5}'') ''/data/doc.json'' ''a'' ''s.t'')) ''/data/doc.json'')
     = Some ''{\"s\":5}''"
  by (simp add: rename_defs GetRemoveAdd_def GetKey_def RemoveKey_def AddKey_def run_defs
      path_defs)

text \<open>
  Outside the amended claim: a new path below the old one. From \<open>a\<close> to \<open>a.b\<close> on
  \<^verbatim>\<open>{"a":{"x":1}}\<close> the map at \<open>a\<close> is stored inside itself, and the removal then deletes
  the entry \<open>a\<close> that held it: \<^verbatim>\<open>RenameKey\<close> reports success and leaves \<^verbatim>\<open>{}\<close>, where the
  sequence leaves \<^verbatim>\<open>{"a":{"b":{"x":1}}}\<close>.
\<close>

lemma rename_into_own_subtree:
  "KeyExists (JObject [(''a'', JObject [(''x'', JNumber 1)])]) ''a'' \<and>
   \<not> KeyExists (JObject [(''a'', JObject [(''x'', JNumber 1)])]) ''a.b'' \<and>
   prefix (SplitPath ''a'') (SplitPath ''a.b'') \<and>
   fst (RenameKey example_codec no_faults (disk ''{\"a\":{\"x\":1}}'') ''/data/doc.json'' ''a'' ''a.b'')
     = None \<and>
   map_option content (files (snd (RenameKey example_codec no_faults (disk ''{\"a\":{\"x\":1}}'')
     ''/data/doc.json'' ''a'' ''a.b'')) ''/data/doc.json'') = Some ''{}'' \<and>
   fst (GetRemoveAdd example_codec no_faults no_faults no_faults (disk ''{\"a\":{\"x\":1}}'')
     ''/data/doc.json'' ''a'' ''a.b'') = None \<and>
   map_option content (files (snd (GetRemoveAdd example_codec no_faults no_faults no_faults
     (disk ''{\"a\":{\"x\":1}}'') ''/data/doc.json'' ''a'' ''a.b'')) ''/data/doc.json'')
     = Some ''{\"a\":{\"b\":{\"x\":1}}}''"
  by (simp add: rename_defs GetRemoveAdd_def GetKey_def RemoveKey_def AddKey_def run_defs
      path_defs)

text \<open>
  Also outside the amended claim: on
  \<^verbatim>\<open>{"a.b":{"c":"X"},"a":{"b":{"c":{"m":"v"}}}}\<close>, from \<open>a.b.c\<close> to \<open>a.b.c.d\<close>. The old
  path is read by its segments and gives the map \<^verbatim>\<open>{"m":"v"}\<close>, which is stored inside
  itself under \<open>d\<close>. The removal finds the parent path \<open>a.b\<close> as a key of the root and
  deletes the entry \<open>c\<close> of that map, so the map that contains itself stays in the document:
  the encoder fails, \<^verbatim>\<open>RenameKey\<close> fails and the file is as it was. The sequence succeeds.
\<close>

lemma rename_below_itself:
  "KeyExists (JObject [(''a.b'', JObject [(''c'', JString ''X'')]),
     (''a'', JObject [(''b'', JObject [(''c'', JObject [(''m'', JString ''v'')])])])]) ''a.b.c'' \<and>
   \<not> KeyExists (JObject [(''a.b'', JObject [(''c'', JString ''X'')]),
     (''a'', JObject [(''b'', JObject [(''c'', JObject [(''m'', JString ''v'')])])])]) ''a.b.c.d'' \<and>
   prefix (SplitPath ''a.b.c'') (SplitPath ''a.b.c.d'') \<and>
   RenameKey example_codec no_faults
     (disk ''{\"a.b\":{\"c\":\"X\"},\"a\":{\"b\":{\"c\":{\"m\":\"v\"}}}}'') ''/data/doc.json''
     ''a.b.c'' ''a.b.c.d''
     = (Some (RENAME_KEY_ERROR (Inr (ErrFileWriteError Encode))),
        (disk ''{\"a.b\":{\"c\":\"X\"},\"a\":{\"b\":{\"c\":{\"m\":\"v\"}}}}'')\<lparr>reads := 1\<rparr>) \<and>
   fst (GetRemoveAdd example_codec no_faults no_faults no_faults
     (disk ''{\"a.b\":{\"c\":\"X\"},\"a\":{\"b\":{\"c\":{\"m\":\"v\"}}}}'') ''/data/doc.json''
     ''a.b.c'' ''a.b.c.d'') = None \<and>
   map_option content (files (snd (GetRemoveAdd example_codec no_faults no_faults no_faults
     (disk ''{\"a.b\":{\"c\":\"X\"},\"a\":{\"b\":{\"c\":{\"m\":\"v\"}}}}'') ''/data/doc.json''
     ''a.b.c'' ''a.b.c.d'')) ''/data/doc.json'')
     = Some ''{\"a.b\":{},\"a\":{\"b\":{\"c\":{\"m\":\"v\",\"d\":{\"m\":\"v\"}}}}}''"
  by (simp add: rename_defs GetRemoveAdd_def GetKey_def RemoveKey_def AddKey_def run_defs
      path_defs)

text \<open>
  C5, amended. Let the old path exist and the new path not exist in the loaded document, and
  let the new path not lie below the old one: the segments of the old path are not the
  first segments of the new path. Then, with environments free of faults and a codec that
  reads back the document written between the steps, \<^verbatim>\<open>RenameKey\<close> succeeds exactly when the
  sequence Get, Remove, Add succeeds, and then every file has the same content after either;
  \<^verbatim>\<open>RenameKey\<close> writes it in its one save. When \<^verbatim>\<open>RenameKey\<close> fails it leaves every file
  as it was. \<^verbatim>\<open>RenameKey\<close> with equal paths fails with SAME_KEY and returns the world it
  was given.
\<close>

theorem C5_rename_as_get_remove_add:
  assumes load: "fst (LoadJSON J e (NewJSONHandler file) w True) = Inr data"
    and ex: "KeyExists (iface data) oldPath"
    and nex: "\<not> KeyExists (iface data) newPath"
    and nb: "\<not> prefix (SplitPath oldPath) (SplitPath newPath)"
    and ff: "fault_free e w" "fault_free e1 w" "fault_free e2 w" "fault_free e3 w"
    and rt: "case RemoveKeyAtPath data oldPath of Inl err \<Rightarrow> True | Inr (x, d) \<Rightarrow> round_trip J d"
  shows "((fst (RenameKey J e w file oldPath newPath) = None) =
          (fst (GetRemoveAdd J e1 e2 e3 w file oldPath newPath) = None)) \<and>
         (fst (RenameKey J e w file oldPath newPath) = None \<longrightarrow>
            (\<forall>name. map_option content (files (snd (RenameKey J e w file oldPath newPath)) name) =
                    map_option content
                      (files (snd (GetRemoveAdd J e1 e2 e3 w file oldPath newPath)) name))) \<and>
         (fst (RenameKey J e w file oldPath newPath) \<noteq> None \<longrightarrow>
            files (snd (RenameKey J e w file oldPath newPath)) = files w) \<and>
         RenameKey J e w file p p = (Some SAME_KEY, w)"
proof -
  from LoadJSON_new_Inr[OF load] obtain f where
    f: "files w file = Some f" "unmarshal_map J (content f) = Inr data"
    by auto
  from ex KeyExists_nil obtain m where data: "data = Some m" by (cases data) auto
  from f data have fm: "unmarshal_map J (content f) = Inr (Some m)" by simp
  from ex nex data have exm: "KeyExists (JObject m) oldPath" "\<not> KeyExists (JObject m) newPath"
    by (simp_all add: iface_def entries_def)
  from exm(1) obtain v where nav: "NavigateToKey (JObject m) oldPath = Inr v"
    by (auto simp: KeyExists_NavigateToKey)
  let ?enc = "\<lambda>d. encode_indent J d (getIndentString 2)"
  let ?R = "case SetValueAtPath (Some m) newPath v True of
              Inl err \<Rightarrow> None
            | Inr d1 \<Rightarrow> (case RemoveKeyAtPath d1 oldPath of Inl err \<Rightarrow> None | Inr (x, d2) \<Rightarrow> Some d2)"
  let ?S = "case RemoveKeyAtPath (Some m) oldPath of
              Inl err \<Rightarrow> None
            | Inr (x, d1) \<Rightarrow>
                if KeyExists (iface d1) newPath then None
                else (case SetValueAtPath d1 newPath v True of Inl err \<Rightarrow> None | Inr d2 \<Rightarrow> Some d2)"
  let ?ren = "RenameKey J e w file oldPath newPath"
  let ?seq = "GetRemoveAdd J e1 e2 e3 w file oldPath newPath"
  have RS: "?R = ?S" by (rule rename_edit_not_below[OF exm nb])
  note ren = RenameKey_run[OF f(1) fm ff(1) exm(1,2) nav not_below_not_stored[OF nb]]
  from ff(2) have e1: "\<not> stat_error e1" "\<not> read_error e1" by (simp_all add: fault_free_def)
  from GetKey_run[OF f(1) fm e1 nav] obtain w1 where
    g: "GetKey J e1 w file oldPath = (Inr v, w1)" "files w1 = files w"
    by auto
  from g f have f1: "files w1 file = Some f" by simp
  from ff(3) g have ff2: "fault_free e2 w1" by (simp add: fault_free_def)
  note rem = RemoveKey_run[OF f1 fm ff2 exm(1)]
  have seq: "(fst ?seq = None) = (\<exists>d b. ?S = Some d \<and> ?enc d = Some b) \<and>
    (\<forall>d b name. ?S = Some d \<and> ?enc d = Some b \<longrightarrow>
       map_option content (files (snd ?seq) name) =
       map_option content (((files w)(file \<mapsto> \<lparr>content = b, modTime = clock e\<rparr>)) name))"
  proof (cases "RemoveKeyAtPath (Some m) oldPath")
    case (Inl err)
    with rem have "isl (fst (RemoveKey J e2 w1 file oldPath))" by simp
    then obtain err' w2 where "RemoveKey J e2 w1 file oldPath = (Inl err', w2)"
      by (cases "RemoveKey J e2 w1 file oldPath") (auto simp: isl_def)
    with g Inl show ?thesis by (simp add: GetRemoveAdd_def)
  next
    case (Inr r)
    obtain x d1 where r: "r = (x, d1)" by (cases r)
    from Inr r obtain m' where d1: "d1 = Some m'" by (auto simp: RemoveKeyAtPath_Inr)
    from rt data Inr r obtain b1 where b1: "?enc d1 = Some b1" "unmarshal_map J b1 = Inr d1"
      by (auto simp: round_trip_def split: option.splits)
    from rem Inr r b1 have rk: "fst (RemoveKey J e2 w1 file oldPath) = Inr x"
      "files (snd (RemoveKey J e2 w1 file oldPath)) =
         (files w1)(file \<mapsto> \<lparr>content = b1, modTime = clock e2\<rparr>)"
      by simp_all
    define w2 where "w2 = snd (RemoveKey J e2 w1 file oldPath)"
    from rk have rk': "RemoveKey J e2 w1 file oldPath = (Inr x, w2)"
      by (cases "RemoveKey J e2 w1 file oldPath") (simp add: w2_def)
    from rk have f2: "files w2 file = Some \<lparr>content = b1, modTime = clock e2\<rparr>"
      by (simp add: w2_def)
    have u2: "unmarshal_map J (content \<lparr>content = b1, modTime = clock e2\<rparr>) = Inr (Some m')"
      using b1 d1 by simp
    from ff(4) f(1) have t3: "temp_path e3 \<noteq> file" by (auto simp: fault_free_def)
    with ff(4) rk g have ff3: "fault_free e3 w2" by (simp add: fault_free_def w2_def)
    note add = AddKey_run[OF f2 u2 ff3, of newPath v]
    have sq: "?seq = AddKey J e3 w2 file newPath v"
      using g rk' by (simp add: GetRemoveAdd_def)
    have S: "?S = (if KeyExists (JObject m') newPath then None
                 else (case SetValueAtPath (Some m') newPath v True of
                         Inl err \<Rightarrow> None
                       | Inr d \<Rightarrow> Some d))"
      using Inr r d1 by (simp add: iface_def entries_def)
    have fw2: "files w2 = (files w)(file \<mapsto> \<lparr>content = b1, modTime = clock e2\<rparr>)"
      using rk g by (simp add: w2_def)
    show ?thesis
      unfolding sq S
      using add by (auto simp: fw2)
  qed
  have one: "(fst ?ren = None) = (fst ?seq = None)"
    using ren(1) seq RS by simp
  have two: "map_option content (files (snd ?ren) name) = map_option content (files (snd ?seq) name)"
    if "fst ?ren = None" for name
  proof -
    from that ren(1) obtain d b where db: "?R = Some d" "?enc d = Some b" by auto
    from db RS have "?S = Some d" by simp
    with seq db have "map_option content (files (snd ?seq) name) =
       map_option content (((files w)(file \<mapsto> \<lparr>content = b, modTime = clock e\<rparr>)) name)"
      by blast
    with ren(2)[OF db] show ?thesis by simp
  qed
  have three: "files (snd ?ren) = files w" if "fst ?ren \<noteq> None"
  proof -
    from that obtain err where "fst ?ren = Some err" by auto
    then have "?ren = (Some err, snd ?ren)" by (cases ?ren) simp
    then show ?thesis by (rule RenameKey_failure_files)
  qed
  have four: "RenameKey J e w file p p = (Some SAME_KEY, w)" by (simp add: RenameKey_def)
  from one two three four show ?thesis by blast
qed

theorem C5_witness:
  "fst (RenameKey example_codec no_faults (disk ''{\"a\":1}'') ''/data/doc.json'' ''a'' ''b'') = None \<and>
   fst (GetRemoveAdd example_codec no_faults no_faults no_faults (disk ''{\"a\":1}'')
     ''/data/doc.json'' ''a'' ''b'') = None \<and>
   map_option content (files (snd (RenameKey example_codec no_faults (disk ''{\"a\":1}'')
     ''/data/doc.json'' ''a'' ''b'')) ''/data/doc.json'') = Some ''{\"b\":1}'' \<and>
   map_option content (files (snd (GetRemoveAdd example_codec no_faults no_faults no_faults
     (disk ''{\"a\":1}'') ''/data/doc.json'' ''a'' ''b'')) ''/data/doc.json'') = Some ''{\"b\":1}'' \<and>
   RenameKey example_codec no_faults (disk ''{\"a\":1}'') ''/data/doc.json'' ''a'' ''a''
     = (Some SAME_KEY, disk ''{\"a\":1}'')"
proof -
  let ?w = "disk ''{\"a\":1}''"
  have load: "fst (LoadJSON example_codec no_faults (NewJSONHandler ''/data/doc.json'') ?w True)
      = Inr (Some [(''a'', JNumber 1)])"
    by (simp add: load_example example_texts_def)
  have ex: "KeyExists (iface (Some [(''a'', JNumber 1)])) ''a''"
    and nex: "\<not> KeyExists (iface (Some [(''a'', JNumber 1)])) ''b''"
    by (simp_all add: path_defs)
  have nb: "\<not> prefix (SplitPath ''a'') (SplitPath ''b'')"
    by (simp add: SplitPath_def)
  have ff: "fault_free no_faults ?w"
    by (simp add: fault_free_def no_faults_def disk_def)
  have rt: "case RemoveKeyAtPath (Some [(''a'', JNumber 1)]) ''a'' of
              Inl err \<Rightarrow> True | Inr (x, d) \<Rightarrow> round_trip example_codec d"
    by (simp add: path_defs round_trip_def example_codec_def example_texts_def)
  have ren: "fst (RenameKey example_codec no_faults ?w ''/data/doc.json'' ''a'' ''b'') = None"
    "map_option content (files (snd (RenameKey example_codec no_faults ?w
       ''/data/doc.json'' ''a'' ''b'')) ''/data/doc.json'') = Some ''{\"b\":1}''"
    by (simp_all add: rename_defs run_defs path_defs)
  from C5_rename_as_get_remove_add[OF load ex nex nb ff ff ff ff rt, of "''a''"] ren
  show ?thesis by simp
qed

end
